theory Spec2Isabelle
  imports Main "HOL-Library.List_Lexorder" "HOL-Library.Char_ord"
begin

section \<open>Python values, strings and exceptions\<close>

text \<open>
  The test driver is Python. Strings are modelled as \<^typ>\<open>string\<close>; a \<open>dict\<close> whose
  iteration order matters is an association list in insertion order; an exception that
  leaves a function is the \<open>Inl\<close> branch of a sum.
\<close>

datatype exn =
    ValueError
  | RuntimeError
  | AssertionError
  | IsADirectoryError
  | NotADirectoryError
  | FileNotFoundError
  | OSError
  | OtherError string

type_synonym 'v pydict = "(string \<times> 'v) list"

text \<open>\<open>s.startswith(p)\<close>.\<close>

fun startswith :: "string \<Rightarrow> string \<Rightarrow> bool" where
  "startswith s [] = True"
| "startswith [] (p # ps) = False"
| "startswith (c # cs) (p # ps) = (c = p \<and> startswith cs ps)"

text \<open>\<open>sep.join(xs)\<close>.\<close>

fun join :: "string \<Rightarrow> string list \<Rightarrow> string" where
  "join sep [] = []"
| "join sep [x] = x"
| "join sep (x # y # ys) = x @ sep @ join sep (y # ys)"

text \<open>\<open>sub in s\<close> for strings: \<open>sub\<close> occurs in \<open>s\<close> as a contiguous run.\<close>

fun contains :: "string \<Rightarrow> string \<Rightarrow> bool" where
  "contains [] sub = (sub = [])"
| "contains (c # cs) sub = (startswith (c # cs) sub \<or> contains cs sub)"

section \<open>definition.py: parametrization\<close>

text \<open>
  \<open>by_keys\<close> is a \<open>defaultdict(list)\<close>: \<open>by_keys[k].append(v)\<close> extends the list stored at
  \<open>k\<close>, or stores \<open>[v]\<close> under a new key, which then comes last in iteration order.
\<close>

fun dd_append :: "(string \<times> 'a list) list \<Rightarrow> string \<Rightarrow> 'a \<Rightarrow> (string \<times> 'a list) list" where
  "dd_append [] k v = [(k, [v])]"
| "dd_append ((k', vs) # rest) k v =
     (if k' = k then (k', vs @ [v]) # rest else (k', vs) # dd_append rest k v)"

text \<open>\<open>", ".join(sorted(param))\<close>: the mapping's keys, sorted, as one string.\<close>

definition sorted_keys :: "'v pydict \<Rightarrow> string" where
  "sorted_keys param = join '', '' (sort (map fst param))"

text \<open>\<open>{k: v for k, v in param.items() if not k.startswith("__")}\<close>.\<close>

definition strip_dunder :: "'v pydict \<Rightarrow> 'v pydict" where
  "strip_dunder param = filter (\<lambda>(k, v). \<not> startswith k ''__'') param"

text \<open>The \<open>for\<close> loop of \<open>_parse_parametrized\<close>, with \<open>by_keys\<close> threaded through.\<close>

fun parse_loop ::
  "(string \<times> 'v pydict list) list \<Rightarrow> 'v pydict list \<Rightarrow> exn + (string \<times> 'v pydict list) list" where
  "parse_loop by_keys [] = Inr by_keys"
| "parse_loop by_keys (param # rest) =
     (let keys = sorted_keys param in
      if by_keys \<noteq> [] \<and> keys \<notin> set (map fst by_keys) then Inl ValueError
      else parse_loop (dd_append by_keys keys (strip_dunder param)) rest)"

text \<open>
  \<open>_parse_parametrized\<close>. The generator is consumed by \<open>list(...)\<close> in \<open>from_yaml\<close>, so its
  result is either the exception or the whole list of variants.
\<close>

definition parse_parametrized :: "'v pydict list \<Rightarrow> exn + 'v pydict list" where
  "parse_parametrized params =
     (if params = [] then Inr [[]]
      else case parse_loop [] params of
        Inl e \<Rightarrow> Inl e
      | Inr by_keys \<Rightarrow>
          if length by_keys \<noteq> 1 then Inl ValueError
          else Inr (concat (map snd by_keys)))"

section \<open>definition.py: the skip predicate\<close>

text \<open>
  \<open>skip: Union[bool, str]\<close>. The modules handed to \<open>eval\<close> are opaque; what matters is
  which names the globals dictionary binds.
\<close>

datatype skip_value = SkipBool bool | SkipStr string

datatype py_module = Module_sys | Module_os | Module_pytest | Module_platform

text \<open>The dictionary literal passed as \<open>eval\<close>'s globals.\<close>

definition skip_globals :: "py_module pydict" where
  "skip_globals =
     [(''sys'', Module_sys), (''os'', Module_os), (''pytest'', Module_pytest),
      (''platform'', Module_platform)]"

text \<open>
  \<open>_run_skip\<close>. Python's \<open>bool(eval(expr, globals))\<close> is the parameter \<open>py_eval\<close>: it is
  given the expression and the globals and returns the truth value, or the exception
  the evaluation raised.
\<close>

definition run_skip ::
  "(string \<Rightarrow> py_module pydict \<Rightarrow> exn + bool) \<Rightarrow> skip_value \<Rightarrow> exn + bool" where
  "run_skip py_eval skip =
     (case skip of
        SkipBool b \<Rightarrow> Inr b
      | SkipStr s \<Rightarrow>
          if s = ''True'' then Inr True
          else if s = ''False'' then Inr False
          else py_eval s skip_globals)"

section \<open>definition.py: ItemDefinition\<close>

text \<open>
  The fields of the dataclass that parametrization, skipping and naming read or write;
  the remaining fields travel unchanged in the record's extension.
\<close>

record 'v item_definition =
  case_name :: string
  starting_lineno :: int
  skip :: skip_value
  item_params :: "'v pydict"

text \<open>
  The loop over \<open>parametrized\<close> at the end of \<open>from_yaml\<close>. \<open>from_yaml\<close> is a generator:
  its outcome is the list of items yielded and the exception that ended it, if any.
\<close>

fun yield_variants ::
  "(string \<Rightarrow> py_module pydict \<Rightarrow> exn + bool) \<Rightarrow> ('v, 'z) item_definition_scheme \<Rightarrow>
   'v pydict list \<Rightarrow> ('v, 'z) item_definition_scheme list \<times> exn option" where
  "yield_variants py_eval nxt [] = ([], None)"
| "yield_variants py_eval nxt (params # rest) =
     (let clone = nxt\<lparr>item_params := params\<rparr> in
      case run_skip py_eval (skip clone) of
        Inl e \<Rightarrow> ([], Some e)
      | Inr skipped \<Rightarrow>
          if \<not> skipped then
            (case yield_variants py_eval nxt rest of (ys, e) \<Rightarrow> (clone # ys, e))
          else yield_variants py_eval nxt rest)"

text \<open>
  One document of \<open>from_yaml\<close>, from \<open>raw_item.pop("parametrized", None)\<close> on.
  \<open>parametrized\<close> is \<open>None\<close> when the key is absent or its value is not a list.
  \<open>make_nxt\<close> is the outcome of building the base record \<open>cls(**kwargs)\<close> from the
  remaining keys, which raises on an unknown key or an invalid case name; it runs after
  \<open>_parse_parametrized\<close>.
\<close>

definition from_yaml_item ::
  "(string \<Rightarrow> py_module pydict \<Rightarrow> exn + bool) \<Rightarrow> 'v pydict list option \<Rightarrow>
   exn + ('v, 'z) item_definition_scheme \<Rightarrow>
   ('v, 'z) item_definition_scheme list \<times> exn option" where
  "from_yaml_item py_eval parametrized make_nxt =
     (let params = (case parametrized of None \<Rightarrow> [] | Some ps \<Rightarrow> ps) in
      case parse_parametrized params of
        Inl e \<Rightarrow> ([], Some e)
      | Inr variants \<Rightarrow>
          (case make_nxt of
             Inl e \<Rightarrow> ([], Some e)
           | Inr nxt \<Rightarrow> yield_variants py_eval nxt variants))"

text \<open>
  \<open>ItemDefinition.test_name\<close>. \<open>f"{k}={v}"\<close> formats the value with \<open>str\<close>, the parameter
  \<open>str_of\<close>.
\<close>

definition test_name :: "('v \<Rightarrow> string) \<Rightarrow> ('v, 'z) item_definition_scheme \<Rightarrow> string" where
  "test_name str_of item =
     (let test_name_prefix = case_name item;
          test_name_suffix =
            (if item_params item \<noteq> [] then
               ''['' @ join '','' (map (\<lambda>(k, v). k @ ''='' @ str_of v) (item_params item)) @ '']''
             else [])
      in test_name_prefix @ test_name_suffix)"

text \<open>
  \<open>str\<close> on the scalar values a YAML document carries: \<open>None\<close>, booleans, integers and
  strings.
\<close>

datatype pyobj = PyNone | PyBool bool | PyInt int | PyStr string

definition digit_char :: "nat \<Rightarrow> char" where
  "digit_char d = ''0123456789'' ! d"

fun str_nat :: "nat \<Rightarrow> string" where
  "str_nat n = (if n < 10 then [digit_char n] else str_nat (n div 10) @ [digit_char (n mod 10)])"

declare str_nat.simps [simp del]

definition str_int :: "int \<Rightarrow> string" where
  "str_int i = (if i < 0 then ''-'' @ str_nat (nat (- i)) else str_nat (nat i))"

fun py_str :: "pyobj \<Rightarrow> string" where
  "py_str PyNone = ''None''"
| "py_str (PyBool b) = (if b then ''True'' else ''False'')"
| "py_str (PyInt i) = str_int i"
| "py_str (PyStr s) = s"

text \<open>An evaluator that raises on every expression, for examples whose skip value is a literal.\<close>

definition no_eval :: "string \<Rightarrow> py_module pydict \<Rightarrow> exn + bool" where
  "no_eval expr globals = Inl (OtherError expr)"

text \<open>An item named \<open>foo\<close> that is not skipped, for examples.\<close>

definition foo_item :: "pyobj item_definition" where
  "foo_item = \<lparr>case_name = ''foo'', starting_lineno = 1, skip = SkipBool False, item_params = []\<rparr>"

section \<open>scenario.py: paths\<close>

text \<open>
  \<open>pathlib\<close> paths in the POSIX flavour: a root (empty for a relative path, \<open>/\<close> or \<open>//\<close>) and
  the list of components. Parsing a string drops empty components and \<open>.\<close>; \<open>..\<close> is kept
  as a component.
\<close>

datatype path = Path (root: string) (parts: "string list")

text \<open>\<open>s.split(sep)\<close> for a separator of one character.\<close>

fun split :: "char \<Rightarrow> string \<Rightarrow> string list" where
  "split sep [] = [[]]"
| "split sep (c # cs) =
     (if c = sep then [] # split sep cs
      else (case split sep cs of [] \<Rightarrow> [[c]] | w # ws \<Rightarrow> (c # w) # ws))"

definition parse_root :: "string \<Rightarrow> string" where
  "parse_root s =
     (if \<not> startswith s ''/'' then []
      else if startswith s ''//'' \<and> \<not> startswith s ''///'' then ''//''
      else ''/'')"

definition parse_path :: "string \<Rightarrow> path" where
  "parse_path s = Path (parse_root s) (filter (\<lambda>x. x \<noteq> [] \<and> x \<noteq> ''.'') (split CHR ''/'' s))"

text \<open>\<open>p / s\<close>: a segment with a root replaces the path.\<close>

definition joinpath :: "path \<Rightarrow> string \<Rightarrow> path" where
  "joinpath p s =
     (let q = parse_path s in
      if root q \<noteq> [] then q else Path (root p) (parts p @ parts q))"

text \<open>\<open>str(p)\<close>.\<close>

definition path_str :: "path \<Rightarrow> string" where
  "path_str p =
     (if parts p = [] then (if root p = [] then ''.'' else root p)
      else root p @ join ''/'' (parts p))"

text \<open>\<open>p.name\<close>, \<open>p.suffix\<close> and \<open>p.with_suffix(suffix)\<close>.\<close>

definition name :: "path \<Rightarrow> string" where
  "name p = (if parts p = [] then [] else last (parts p))"

text \<open>\<open>s.rfind(c)\<close>: the index of the last occurrence of \<open>c\<close>, or \<open>-1\<close>.\<close>

definition rfind :: "string \<Rightarrow> char \<Rightarrow> int" where
  "rfind s c =
     (if c \<in> set s then int (length s) - 1 - int (length (takeWhile (\<lambda>x. x \<noteq> c) (rev s)))
      else - 1)"

definition suffix :: "path \<Rightarrow> string" where
  "suffix p =
     (let i = rfind (name p) CHR ''.'' in
      if 0 < i \<and> i < int (length (name p)) - 1 then drop (nat i) (name p) else [])"

definition with_suffix :: "path \<Rightarrow> string \<Rightarrow> exn + path" where
  "with_suffix p suf =
     (if CHR ''/'' \<in> set suf then Inl ValueError
      else if (suf \<noteq> [] \<and> \<not> startswith suf ''.'') \<or> suf = ''.'' then Inl ValueError
      else if name p = [] then Inl ValueError
      else
        (let old_suffix = suffix p;
             new_name =
               (if old_suffix = [] then name p @ suf
                else take (length (name p) - length old_suffix) (name p) @ suf)
         in Inr (Path (root p) (butlast (parts p) @ [new_name]))))"

text \<open>\<open>p.parents\<close>: the ancestors, nearest first, down to the root or \<open>.\<close>.\<close>

fun parents_of :: "string \<Rightarrow> string list \<Rightarrow> path list" where
  "parents_of r [] = []"
| "parents_of r (x # xs) = parents_of r xs @ [Path r (rev xs)]"

definition parents :: "path \<Rightarrow> path list" where
  "parents p = rev (parents_of (root p) (rev (parts p)))"

text \<open>\<open>p.is_relative_to(other)\<close>, a comparison of components.\<close>

definition is_relative_to :: "path \<Rightarrow> path \<Rightarrow> bool" where
  "is_relative_to p other =
     (root p = root other \<and> take (length (parts other)) (parts p) = parts other)"

section \<open>scenario.py: the scenario's data\<close>

record shared_cache =
  cache_dir :: path

text \<open>
  The fields of \<open>ScenarioInfo\<close> that the argument derivation and the settings synthesis
  read. \<open>custom_settings\<close> is \<open>None\<close> or a string.
\<close>

record scenario_info =
  shared_cache :: "shared_cache option"
  monkeypatch :: bool
  disable_cache :: bool
  installed_apps :: "pyobj list"
  custom_settings :: "string option"

text \<open>The two fields of \<open>RunOptions\<close> that \<open>clone\<close> is given; the others are in the extension.\<close>

record run_options =
  args :: "string list"
  do_followup :: bool

section \<open>scenario.py: the argument list of the checker\<close>

text \<open>\<open>xs.index(x)\<close> for an \<open>x\<close> that occurs in \<open>xs\<close>: the position of its first occurrence.\<close>

definition list_index :: "'a list \<Rightarrow> 'a \<Rightarrow> nat" where
  "list_index xs x = length (takeWhile (\<lambda>y. y \<noteq> x) xs)"

text \<open>The list after \<open>xs.pop(i)\<close>, for \<open>i\<close> within the list.\<close>

definition list_pop :: "'a list \<Rightarrow> nat \<Rightarrow> 'a list" where
  "list_pop xs i = take i xs @ drop (Suc i) xs"

text \<open>
  \<open>ScenarioRunner._adjust_mypy_args\<close>. \<open>is_daemon\<close> is
  \<open>default_program_runner_maker.is_daemon\<close> and \<open>os_name\<close> is \<open>os.name\<close>.
  \<open>xs.remove(x)\<close> takes the first occurrence out: \<^const>\<open>remove1\<close>.
\<close>

definition adjust_mypy_args ::
  "'a scenario_info_scheme \<Rightarrow> bool \<Rightarrow> string \<Rightarrow> 'b run_options_scheme \<Rightarrow> 'b run_options_scheme" where
  "adjust_mypy_args info is_daemon os_name options =
     (let args0 = args options;
          args1 =
            (if disable_cache info \<or> shared_cache info \<noteq> None then
               (if ''--cache-dir'' \<in> set args0 then
                  (let cd_idx = list_index args0 ''--cache-dir'' in
                   if length args0 > cd_idx + 1 then list_pop (list_pop args0 cd_idx) cd_idx
                   else args0)
                else args0)
             else args0)
      in
      if disable_cache info then
        (let args2 =
               (if \<not> is_daemon then
                  (let a = (if ''--incremental'' \<in> set args1 then remove1 ''--incremental'' args1 else args1)
                   in if ''--no-incremental'' \<notin> set a then a @ [''--no-incremental''] else a)
                else args1);
             args3 =
               (if os_name = ''nt'' then args2 @ [''--cache-dir'', ''nul'']
                else args2 @ [''--cache-dir'', ''/dev/null''])
         in options\<lparr>args := args3, do_followup := False\<rparr>)
      else
        (case shared_cache info of
           Some cache \<Rightarrow>
             (let args2 =
                    (if \<not> is_daemon then
                       (let a = (if ''--incremental'' \<notin> set args1 then args1 @ [''--incremental''] else args1)
                        in if ''--no-incremental'' \<in> set a then remove1 ''--no-incremental'' a else a)
                     else args1)
              in options\<lparr>args := args2 @ [''--cache-dir'', path_str (cache_dir cache)]\<rparr>)
         | None \<Rightarrow> options\<lparr>args := args1\<rparr>))"

text \<open>Scenario data and options for examples.\<close>

definition tmp_cache :: shared_cache where
  "tmp_cache = \<lparr>cache_dir = Path ''/'' [''tmp'', ''shared_cache'']\<rparr>"

definition info_disabled :: scenario_info where
  "info_disabled =
     \<lparr>shared_cache = Some tmp_cache, monkeypatch = False, disable_cache = True,
      installed_apps = [], custom_settings = None\<rparr>"

definition info_shared :: scenario_info where
  "info_shared =
     \<lparr>shared_cache = Some tmp_cache, monkeypatch = False, disable_cache = False,
      installed_apps = [], custom_settings = None\<rparr>"

section \<open>scenario.py: the settings module\<close>

text \<open>\<open>ast.Constant(value=app)\<close>, the only expression node the driver builds.\<close>

datatype ast_expr = Constant pyobj

fun is_str :: "pyobj \<Rightarrow> bool" where
  "is_str (PyStr s) = True"
| "is_str v = False"

text \<open>
  The callback \<open>change_installed_apps\<close>, a closure over \<open>self.info\<close>. \<open>values\<close> are the
  entries the settings file has for the variable.
\<close>

definition change_installed_apps ::
  "'a scenario_info_scheme \<Rightarrow> string \<Rightarrow> pyobj list \<Rightarrow> ast_expr list" where
  "change_installed_apps info variable_name values =
     (let value = installed_apps info;
          value' =
            (if PyStr ''django.contrib.contenttypes'' \<notin> set value
             then PyStr ''django.contrib.contenttypes'' # value
             else value)
      in map Constant (filter is_str value'))"

text \<open>
  \<open>s.replace(old, new)\<close>: the occurrences of \<open>old\<close> are found from left to right, each
  search starting after the previous occurrence. For an empty \<open>old\<close>, \<open>new\<close> goes before
  every character and at the end.
\<close>

function py_replace :: "string \<Rightarrow> string \<Rightarrow> string \<Rightarrow> string" where
  "py_replace old new s =
     (if old = [] then new @ concat (map (\<lambda>c. c # new) s)
      else if s = [] then []
      else if startswith s old then new @ py_replace old new (drop (length old) s)
      else hd s # py_replace old new (tl s))"
  by pat_completeness auto
termination
  by (relation "measure (\<lambda>(old, new, s). length s)") auto

declare py_replace.simps [simp del]

definition monkeypatch_str :: string where
  "monkeypatch_str =
     ''import django_stubs_ext\<newline>django_stubs_ext.monkeypatch()\<newline>''"

text \<open>
  The last step of \<open>determine_django_settings_content\<close>: the snippet is taken out of the
  text and, when the toggle is set, put in front of it.
\<close>

definition apply_monkeypatch :: "bool \<Rightarrow> string \<Rightarrow> string" where
  "apply_monkeypatch toggle new_settings =
     (let new_settings' = py_replace monkeypatch_str [] new_settings in
      if toggle then monkeypatch_str @ new_settings' else new_settings')"

text \<open>
  \<open>Scenario.determine_django_settings_content\<close>. The structural edit is done by
  \<open>BasicPythonAssignmentChanger.after_change\<close> of the library \<open>pytest_typing_runner\<close>, the
  parameter \<open>after_change\<close> here: it is given the changer registered for \<open>INSTALLED_APPS\<close>
  (\<open>None\<close> when it was deleted), the text of the settings file if the file exists, and the
  default content; it returns the new text and whether the finder registered for
  \<open>SECRET_KEY\<close> reported a value. \<open>existing\<close> is the text of the settings file before the
  call; custom settings delete the file first.
\<close>

definition determine_django_settings_content ::
  "((pyobj list \<Rightarrow> ast_expr list) option \<Rightarrow> string option \<Rightarrow> string \<Rightarrow> string \<times> bool) \<Rightarrow>
   'a scenario_info_scheme \<Rightarrow> string option \<Rightarrow> string" where
  "determine_django_settings_content after_change info existing =
     (let custom = (case custom_settings info of None \<Rightarrow> [] | Some s \<Rightarrow> s);
          default_content = custom;
          existing' = (if custom \<noteq> [] then None else existing);
          installed_apps_changer =
            (if custom \<noteq> [] \<and> contains default_content ''INSTALLED_APPS'' then None
             else Some (change_installed_apps info ''INSTALLED_APPS''));
          default_content' =
            (if \<not> contains default_content ''INSTALLED_APPS''
             then default_content @ ''\<newline>INSTALLED_APPS=[]''
             else default_content);
          (new_settings, found_secret_key) =
            after_change installed_apps_changer existing' default_content';
          new_settings' =
            (if \<not> found_secret_key
             then new_settings @ ''\<newline>SECRET_KEY = '' @ [CHR 0x27] @ ''1'' @ [CHR 0x27]
             else new_settings)
      in apply_monkeypatch (monkeypatch info) new_settings')"

text \<open>
  A structural step for examples: it has nothing to change, returns the text it reads
  and reports \<open>SECRET_KEY\<close> as found.
\<close>

definition read_only_change ::
  "(pyobj list \<Rightarrow> ast_expr list) option \<Rightarrow> string option \<Rightarrow> string \<Rightarrow> string \<times> bool" where
  "read_only_change changer existing default_content =
     (case existing of None \<Rightarrow> (default_content, True) | Some text \<Rightarrow> (text, True))"

text \<open>
  A settings module for examples: a docstring in which one occurrence of the snippet is
  wrapped in the two halves of another.
\<close>

definition nested_settings :: string where
  "nested_settings =
     [CHR 0x22, CHR 0x22, CHR 0x22] @
     ''import django_stubs_ext\<newline>django_stubs_ext.monk'' @
     monkeypatch_str @
     ''eypatch()\<newline>'' @
     [CHR 0x22, CHR 0x22, CHR 0x22]"

definition info_plain :: scenario_info where
  "info_plain =
     \<lparr>shared_cache = None, monkeypatch = False, disable_cache = False,
      installed_apps = [PyStr ''a.app''], custom_settings = None\<rparr>"

section \<open>scenario.py: templates\<close>

text \<open>\<open>_rendering_env.variable_start_string\<close> of a \<open>jinja2.Environment()\<close> with its defaults.\<close>

definition variable_start_string :: string where
  "variable_start_string = ''{{''"

text \<open>
  \<open>ScenarioBuilder.render_template\<close>. \<open>jinja_render\<close> stands for
  \<open>_rendering_env.from_string(template).render(context)\<close>, which returns the rendered text
  or raises.
\<close>

definition render_template ::
  "(string \<Rightarrow> pyobj pydict \<Rightarrow> exn + string) \<Rightarrow> string \<Rightarrow> pyobj pydict \<Rightarrow> exn + string" where
  "render_template jinja_render template data =
     (if contains template variable_start_string then
        jinja_render template (map (\<lambda>(k, v). (k, if v \<noteq> PyNone then v else PyStr ''None'')) data)
      else Inr template)"

section \<open>scenario.py: the shared cache on disk\<close>

text \<open>
  The file system as far as \<open>remove_cache_for\<close> touches it: which paths are regular files
  and which are directories. Paths are compared as \<open>pathlib\<close> compares them, by their
  components; symbolic links and permissions are not modelled.
\<close>

record filesystem =
  files :: "path set"
  dirs :: "path set"

text \<open>\<open>p.exists()\<close>.\<close>

definition path_exists :: "filesystem \<Rightarrow> path \<Rightarrow> bool" where
  "path_exists fs p = (p \<in> files fs \<or> p \<in> dirs fs)"

text \<open>The directory \<open>p\<close> has an entry: \<open>bool(list(p.iterdir()))\<close> for a directory \<open>p\<close>.\<close>

definition has_entries :: "filesystem \<Rightarrow> path \<Rightarrow> bool" where
  "has_entries fs p =
     (\<exists>q \<in> files fs \<union> dirs fs. parts q \<noteq> [] \<and> Path (root q) (butlast (parts q)) = p)"

text \<open>
  \<open>p.unlink(missing_ok=True)\<close>: a missing file is not an error; a directory, or a regular
  file where a directory of the path should be, is.
\<close>

definition unlink_missing_ok :: "filesystem \<Rightarrow> path \<Rightarrow> exn + filesystem" where
  "unlink_missing_ok fs p =
     (if p \<in> dirs fs then Inl IsADirectoryError
      else if \<exists>q \<in> set (parents p). q \<in> files fs then Inl NotADirectoryError
      else Inr (fs\<lparr>files := files fs - {p}\<rparr>))"

text \<open>Whether \<open>list(p.iterdir())\<close> is non-empty.\<close>

definition iterdir_nonempty :: "filesystem \<Rightarrow> path \<Rightarrow> exn + bool" where
  "iterdir_nonempty fs p =
     (if p \<in> dirs fs then Inr (has_entries fs p)
      else if p \<in> files fs then Inl NotADirectoryError
      else Inl FileNotFoundError)"

text \<open>\<open>p.rmdir()\<close>.\<close>

definition rmdir :: "filesystem \<Rightarrow> path \<Rightarrow> exn + filesystem" where
  "rmdir fs p =
     (if p \<in> dirs fs then
        (if has_entries fs p then Inl OSError else Inr (fs\<lparr>dirs := dirs fs - {p}\<rparr>))
      else if p \<in> files fs then Inl NotADirectoryError
      else Inl FileNotFoundError)"

text \<open>The loop of \<open>remove_cache_for\<close> over \<open>cache_file.parents\<close>, \<open>self_cache_dir\<close> being \<open>self.cache_dir\<close>.\<close>

fun prune_parents :: "path \<Rightarrow> path list \<Rightarrow> filesystem \<Rightarrow> exn + filesystem" where
  "prune_parents self_cache_dir [] fs = Inr fs"
| "prune_parents self_cache_dir (parent_dir # rest) fs =
     (if parent_dir = self_cache_dir \<or> \<not> is_relative_to parent_dir self_cache_dir then Inr fs
      else if \<not> path_exists fs parent_dir then prune_parents self_cache_dir rest fs
      else
        (case iterdir_nonempty fs parent_dir of
           Inl e \<Rightarrow> Inl e
         | Inr nonempty \<Rightarrow>
             if nonempty then Inr fs
             else
               (case rmdir fs parent_dir of
                  Inl e \<Rightarrow> Inl e
                | Inr fs' \<Rightarrow> prune_parents self_cache_dir rest fs')))"

text \<open>\<open>".".join([str(part) for part in sys.version_info[:2]])\<close>.\<close>

definition version_dir :: "nat \<times> nat \<Rightarrow> string" where
  "version_dir version_info = join ''.'' [str_nat (fst version_info), str_nat (snd version_info)]"

text \<open>\<open>SharedCache.remove_cache_for\<close>, with \<open>sys.version_info[:2]\<close> and the file system explicit.\<close>

definition remove_cache_for ::
  "nat \<times> nat \<Rightarrow> shared_cache \<Rightarrow> string \<Rightarrow> filesystem \<Rightarrow> exn + filesystem" where
  "remove_cache_for version_info self path_arg fs =
     (case with_suffix (joinpath (joinpath (cache_dir self) (version_dir version_info)) path_arg) [] of
        Inl e \<Rightarrow> Inl e
      | Inr cache_file \<Rightarrow>
          (case with_suffix cache_file ''.data.json'' of
             Inl e \<Rightarrow> Inl e
           | Inr data_json_file \<Rightarrow>
               (case unlink_missing_ok fs data_json_file of
                  Inl e \<Rightarrow> Inl e
                | Inr fs1 \<Rightarrow>
                    (case with_suffix cache_file ''.meta.json'' of
                       Inl e \<Rightarrow> Inl e
                     | Inr meta_json_file \<Rightarrow>
                         (case unlink_missing_ok fs1 meta_json_file of
                            Inl e \<Rightarrow> Inl e
                          | Inr fs2 \<Rightarrow>
                              prune_parents (cache_dir self) (parents cache_file) fs2)))))"

text \<open>A cache tree for examples, under the root \<open>/c\<close>.\<close>

definition root_cache :: shared_cache where
  "root_cache = \<lparr>cache_dir = Path ''/'' [''c'']\<rparr>"

definition fs_pkg :: filesystem where
  "fs_pkg =
     \<lparr>files = {Path ''/'' [''c'', ''3.12'', ''pkg'', ''mod.data.json''],
               Path ''/'' [''c'', ''3.12'', ''pkg'', ''mod.meta.json'']},
      dirs = {Path ''/'' [], Path ''/'' [''c''], Path ''/'' [''c'', ''3.12''],
              Path ''/'' [''c'', ''3.12'', ''pkg'']}\<rparr>"

definition fs_dotted :: filesystem where
  "fs_dotted =
     \<lparr>files = {Path ''/'' [''c'', ''3.12'', ''pkg'', ''mod.data.json''],
               Path ''/'' [''c'', ''3.12'', ''pkg'', ''mod.meta.json''],
               Path ''/'' [''c'', ''3.12'', ''pkg'', ''mod.foo.data.json''],
               Path ''/'' [''c'', ''3.12'', ''pkg'', ''mod.foo.meta.json'']},
      dirs = {Path ''/'' [], Path ''/'' [''c''], Path ''/'' [''c'', ''3.12''],
              Path ''/'' [''c'', ''3.12'', ''pkg'']}\<rparr>"

section \<open>Properties of parametrization\<close>

lemma parse_loop_same:
  "\<forall>p \<in> set ps. sorted_keys p = k \<Longrightarrow>
   parse_loop [(k, vs)] ps = Inr [(k, vs @ map strip_dunder ps)]"
  by (induction ps arbitrary: vs) (simp_all add: Let_def)

lemma parse_loop_differ:
  "\<exists>p \<in> set ps. sorted_keys p \<noteq> k \<Longrightarrow> parse_loop [(k, vs)] ps = Inl ValueError"
  by (induction ps arbitrary: vs) (auto simp add: Let_def)

lemma parse_parametrized_Cons:
  "parse_parametrized (p # ps) =
     (if \<forall>q \<in> set ps. sorted_keys q = sorted_keys p then Inr (map strip_dunder (p # ps))
      else Inl ValueError)"
  by (simp add: parse_parametrized_def Let_def parse_loop_same parse_loop_differ)

lemma parse_parametrized_nonempty:
  "ps \<noteq> [] \<Longrightarrow>
   parse_parametrized ps =
     (if \<forall>p \<in> set ps. \<forall>q \<in> set ps. sorted_keys p = sorted_keys q
      then Inr (map strip_dunder ps) else Inl ValueError)"
proof (cases ps)
  case Nil
  assume "ps \<noteq> []"
  with Nil show ?thesis by simp
next
  case (Cons p rest)
  have "(\<forall>q \<in> set rest. sorted_keys q = sorted_keys p) \<longleftrightarrow>
        (\<forall>a \<in> set (p # rest). \<forall>b \<in> set (p # rest). sorted_keys a = sorted_keys b)"
    by auto
  with Cons show ?thesis
    by (simp only: parse_parametrized_Cons)
qed

lemma yield_variants_skip:
  "run_skip py_eval (skip nxt) = Inr skipped \<Longrightarrow>
   yield_variants py_eval nxt vs =
     (map (\<lambda>v. nxt\<lparr>item_params := v\<rparr>) (filter (\<lambda>v. \<not> skipped) vs), None)"
  by (induction vs) (simp_all add: Let_def)

lemma yield_variants_raise:
  "run_skip py_eval (skip nxt) = Inl e \<Longrightarrow> vs \<noteq> [] \<Longrightarrow>
   yield_variants py_eval nxt vs = ([], Some e)"
  by (cases vs) (simp_all add: Let_def)

text \<open>
  Claim C1, as stated, promises as many yielded variants as there are mappings that are not
  skipped. For the empty sequence of mappings \<open>_parse_parametrized\<close> yields one empty
  variant, so an item that is not skipped yields one variant although there is no mapping.
\<close>

theorem from_yaml_item_empty_counterexample:
  "from_yaml_item no_eval (Some []) (Inr foo_item) = ([foo_item], None) \<and>
   length (fst (from_yaml_item no_eval (Some []) (Inr foo_item))) = 1 \<and>
   length (filter (\<lambda>p. run_skip no_eval (skip foo_item) = Inr False) ([] :: pyobj pydict list)) = 0"
  by (simp add: from_yaml_item_def parse_parametrized_def run_skip_def foo_item_def Let_def)



lemma from_yaml_item_ok:
  assumes pp: "parse_parametrized ps = Inr vs"
    and sk: "run_skip py_eval (skip nxt) = Inr skipped"
  shows "from_yaml_item py_eval (Some ps) (Inr nxt) =
        (map (\<lambda>v. nxt\<lparr>item_params := v\<rparr>) (filter (\<lambda>v. \<not> skipped) vs), None)"
  unfolding from_yaml_item_def by (simp add: pp yield_variants_skip [OF sk])

lemma from_yaml_item_absent:
  assumes pp: "parse_parametrized [] = Inr vs"
    and sk: "run_skip py_eval (skip nxt) = Inr skipped"
  shows "from_yaml_item py_eval None (Inr nxt) =
        (map (\<lambda>v. nxt\<lparr>item_params := v\<rparr>) (filter (\<lambda>v. \<not> skipped) vs), None)"
  unfolding from_yaml_item_def by (simp add: pp yield_variants_skip [OF sk])

lemma from_yaml_item_raise:
  assumes pp: "parse_parametrized ps = Inl e"
  shows "from_yaml_item py_eval (Some ps) make_nxt = ([], Some e)"
  unfolding from_yaml_item_def by (simp add: pp)


text \<open>
  Claim C1, amended. If two mappings of the sequence differ in their sorted key string,
  the document raises \<open>ValueError\<close> and yields nothing. If the sequence is not empty and
  all mappings have the same sorted key string, and the base record is built and its skip
  value evaluates to the same truth value every time it is evaluated, the document
  yields, in input order, one clone per mapping when that value is false and none when it
  is true: as many as there are mappings whose skip predicate evaluates to false. For the
  empty sequence, and for a document that has no \<open>parametrized\<close> list at all, it yields one
  variant with empty \<open>item_params\<close> unless the item is skipped. (The evaluator \<open>py_eval\<close> is
  a function of the expression and the globals, so the hypothesis on \<open>run_skip\<close> speaks of
  every evaluation of the loop.)
\<close>

theorem from_yaml_item_parametrized:
  "((\<exists>p \<in> set ps. \<exists>q \<in> set ps. sorted_keys p \<noteq> sorted_keys q) \<longrightarrow>
      from_yaml_item py_eval (Some ps) make_nxt = ([], Some ValueError)) \<and>
   (ps \<noteq> [] \<and> (\<forall>p \<in> set ps. \<forall>q \<in> set ps. sorted_keys p = sorted_keys q) \<and>
    make_nxt = Inr nxt \<and> run_skip py_eval (skip nxt) = Inr skipped \<longrightarrow>
      from_yaml_item py_eval (Some ps) make_nxt =
        (map (\<lambda>p. nxt\<lparr>item_params := strip_dunder p\<rparr>) (filter (\<lambda>p. \<not> skipped) ps), None) \<and>
      length (fst (from_yaml_item py_eval (Some ps) make_nxt)) =
        length (filter (\<lambda>p. run_skip py_eval (skip nxt) = Inr False) ps)) \<and>
   (ps = [] \<and> make_nxt = Inr nxt \<and> run_skip py_eval (skip nxt) = Inr skipped \<longrightarrow>
      from_yaml_item py_eval (Some ps) make_nxt =
        (if skipped then [] else [nxt\<lparr>item_params := []\<rparr>], None)) \<and>
   (make_nxt = Inr nxt \<and> run_skip py_eval (skip nxt) = Inr skipped \<longrightarrow>
      from_yaml_item py_eval None make_nxt =
        (if skipped then [] else [nxt\<lparr>item_params := []\<rparr>], None))"
proof (intro conjI impI)
  assume "\<exists>p \<in> set ps. \<exists>q \<in> set ps. sorted_keys p \<noteq> sorted_keys q"
  then have ne: "ps \<noteq> []"
    and nall: "\<not> (\<forall>p \<in> set ps. \<forall>q \<in> set ps. sorted_keys p = sorted_keys q)"
    by auto
  from nall have "parse_parametrized ps = Inl ValueError"
    unfolding parse_parametrized_nonempty [OF ne] by (rule if_not_P)
  then show "from_yaml_item py_eval (Some ps) make_nxt = ([], Some ValueError)"
    by (rule from_yaml_item_raise)
next
  assume h: "ps \<noteq> [] \<and> (\<forall>p \<in> set ps. \<forall>q \<in> set ps. sorted_keys p = sorted_keys q) \<and>
    make_nxt = Inr nxt \<and> run_skip py_eval (skip nxt) = Inr skipped"
  then have ne: "ps \<noteq> []"
    and all: "\<forall>p \<in> set ps. \<forall>q \<in> set ps. sorted_keys p = sorted_keys q"
    and mk: "make_nxt = Inr nxt"
    and sk: "run_skip py_eval (skip nxt) = Inr skipped"
    by blast+
  from all have pp: "parse_parametrized ps = Inr (map strip_dunder ps)"
    unfolding parse_parametrized_nonempty [OF ne] by (rule if_P)
  have "from_yaml_item py_eval (Some ps) (Inr nxt) =
        (map (\<lambda>p. nxt\<lparr>item_params := strip_dunder p\<rparr>) (filter (\<lambda>p. \<not> skipped) ps), None)"
    unfolding from_yaml_item_ok [OF pp sk] by (cases skipped) simp_all
  then show res: "from_yaml_item py_eval (Some ps) make_nxt =
        (map (\<lambda>p. nxt\<lparr>item_params := strip_dunder p\<rparr>) (filter (\<lambda>p. \<not> skipped) ps), None)"
    unfolding mk .
  show "length (fst (from_yaml_item py_eval (Some ps) make_nxt)) =
        length (filter (\<lambda>p. run_skip py_eval (skip nxt) = Inr False) ps)"
    unfolding res sk by (cases skipped) simp_all
next
  assume h: "ps = [] \<and> make_nxt = Inr nxt \<and> run_skip py_eval (skip nxt) = Inr skipped"
  then have e: "ps = []" and mk: "make_nxt = Inr nxt"
    and sk: "run_skip py_eval (skip nxt) = Inr skipped"
    by blast+
  have pp: "parse_parametrized ps = Inr [[]]"
    unfolding e by (simp add: parse_parametrized_def)
  show "from_yaml_item py_eval (Some ps) make_nxt =
        (if skipped then [] else [nxt\<lparr>item_params := []\<rparr>], None)"
    unfolding mk from_yaml_item_ok [OF pp sk] by (cases skipped) simp_all
next
  assume h: "make_nxt = Inr nxt \<and> run_skip py_eval (skip nxt) = Inr skipped"
  then have mk: "make_nxt = Inr nxt"
    and sk: "run_skip py_eval (skip nxt) = Inr skipped"
    by blast+
  have pp: "parse_parametrized [] = Inr [[]]"
    by (simp add: parse_parametrized_def)
  show "from_yaml_item py_eval None make_nxt =
        (if skipped then [] else [nxt\<lparr>item_params := []\<rparr>], None)"
    unfolding mk from_yaml_item_absent [OF pp sk] by (cases skipped) simp_all
qed

theorem from_yaml_item_parametrized_witness:
  "from_yaml_item no_eval (Some [[(''a'', PyInt 1)], [(''b'', PyInt 2)]]) (Inr foo_item)
     = ([], Some ValueError) \<and>
   from_yaml_item no_eval
       (Some [[(''a'', PyInt 1), (''__line__'', PyInt 7)], [(''__line__'', PyInt 8), (''a'', PyStr ''x'')]])
       (Inr foo_item)
     = ([foo_item\<lparr>item_params := [(''a'', PyInt 1)]\<rparr>,
         foo_item\<lparr>item_params := [(''a'', PyStr ''x'')]\<rparr>], None) \<and>
   from_yaml_item no_eval (Some []) (Inr foo_item) = ([foo_item\<lparr>item_params := []\<rparr>], None) \<and>
   from_yaml_item no_eval None (Inr foo_item) = ([foo_item\<lparr>item_params := []\<rparr>], None)"
proof -
  have sk: "run_skip no_eval (skip foo_item) = Inr False"
    by (simp add: run_skip_def foo_item_def)
  have k1: "sorted_keys [(''a'', PyInt 1)] \<noteq> sorted_keys [(''b'', PyInt 2)]"
    by (simp add: sorted_keys_def)
  have k2: "sorted_keys [(''a'', PyInt 1), (''__line__'', PyInt 7)] =
            sorted_keys [(''__line__'', PyInt 8), (''a'', PyStr ''x'')]"
    by (simp add: sorted_keys_def)
  have "\<exists>p \<in> set [[(''a'', PyInt 1)], [(''b'', PyInt 2)]].
        \<exists>q \<in> set [[(''a'', PyInt 1)], [(''b'', PyInt 2)]]. sorted_keys p \<noteq> sorted_keys q"
    using k1 by auto
  then have a: "from_yaml_item no_eval (Some [[(''a'', PyInt 1)], [(''b'', PyInt 2)]]) (Inr foo_item)
     = ([], Some ValueError)"
    using from_yaml_item_parametrized
      [of "[[(''a'', PyInt 1)], [(''b'', PyInt 2)]]" no_eval "Inr foo_item" foo_item False]
    by blast
  have b: "from_yaml_item no_eval
       (Some [[(''a'', PyInt 1), (''__line__'', PyInt 7)], [(''__line__'', PyInt 8), (''a'', PyStr ''x'')]])
       (Inr foo_item)
     = ([foo_item\<lparr>item_params := [(''a'', PyInt 1)]\<rparr>,
         foo_item\<lparr>item_params := [(''a'', PyStr ''x'')]\<rparr>], None)"
    using from_yaml_item_parametrized
      [of "[[(''a'', PyInt 1), (''__line__'', PyInt 7)], [(''__line__'', PyInt 8), (''a'', PyStr ''x'')]]"
          no_eval "Inr foo_item" foo_item False] k2 sk
    by (simp add: strip_dunder_def)
  have c: "from_yaml_item no_eval (Some []) (Inr foo_item) = ([foo_item\<lparr>item_params := []\<rparr>], None)"
    using from_yaml_item_parametrized [of "[]" no_eval "Inr foo_item" foo_item False] sk
    by simp
  have d: "from_yaml_item no_eval None (Inr foo_item) = ([foo_item\<lparr>item_params := []\<rparr>], None)"
    using from_yaml_item_parametrized [of "[]" no_eval "Inr foo_item" foo_item False] sk
    by simp
  from a b c d show ?thesis by blast
qed

lemma yield_variants_member:
  "y \<in> set (fst (yield_variants py_eval nxt vs)) \<Longrightarrow> \<exists>v \<in> set vs. y = nxt\<lparr>item_params := v\<rparr>"
  by (induction vs) (auto simp add: Let_def split: sum.splits if_splits prod.splits)

text \<open>
  Claim C8, as stated, strips every key that starts with an underscore. The code tests
  for the prefix \<open>__\<close>: a key with a single leading underscore stays in \<open>item_params\<close>.
\<close>

theorem from_yaml_item_underscore_counterexample:
  "startswith ''_a'' ''_'' \<and>
   from_yaml_item no_eval (Some [[(''_a'', PyInt 1), (''b'', PyInt 2)]]) (Inr foo_item) =
     ([foo_item\<lparr>item_params := [(''_a'', PyInt 1), (''b'', PyInt 2)]\<rparr>], None)"
  by (simp add: from_yaml_item_def parse_parametrized_def sorted_keys_def strip_dunder_def
      run_skip_def foo_item_def Let_def)

text \<open>
  Claim C8, amended. For a non-empty sequence of mappings that \<open>_parse_parametrized\<close>
  accepts, the variants are the mappings in input order, each without the keys that start
  with two underscores and with the order of its remaining entries kept; and every item
  \<open>from_yaml\<close> yields has such a variant as its \<open>item_params\<close>: its keys are exactly the
  keys of the mapping that do not start with \<open>__\<close>, in input order.
\<close>

theorem parse_parametrized_strips_dunder:
  "(ps \<noteq> [] \<and> parse_parametrized ps = Inr variants \<longrightarrow>
      variants = map (filter (\<lambda>(k, v). \<not> startswith k ''__'')) ps) \<and>
   (ps \<noteq> [] \<and> y \<in> set (fst (from_yaml_item py_eval (Some ps) make_nxt)) \<longrightarrow>
      (\<exists>p \<in> set ps. item_params y = filter (\<lambda>(k, v). \<not> startswith k ''__'') p \<and>
         map fst (item_params y) = filter (\<lambda>k. \<not> startswith k ''__'') (map fst p)))"
proof (intro conjI impI)
  assume "ps \<noteq> [] \<and> parse_parametrized ps = Inr variants"
  then have ne: "ps \<noteq> []" and pp: "parse_parametrized ps = Inr variants" by blast+
  from pp have "variants = map strip_dunder ps"
    unfolding parse_parametrized_nonempty [OF ne] by (simp split: if_splits)
  then show "variants = map (filter (\<lambda>(k, v). \<not> startswith k ''__'')) ps"
    by (simp add: strip_dunder_def [abs_def])
next
  assume "ps \<noteq> [] \<and> y \<in> set (fst (from_yaml_item py_eval (Some ps) make_nxt))"
  then have ne: "ps \<noteq> []"
    and y: "y \<in> set (fst (from_yaml_item py_eval (Some ps) make_nxt))" by blast+
  have keys: "map fst (filter (\<lambda>(k, v). \<not> startswith k ''__'') p) =
              filter (\<lambda>k. \<not> startswith k ''__'') (map fst p)" for p :: "(string \<times> 'a) list"
    by (induction p) auto
  from y obtain nxt where mem: "y \<in> set (fst (yield_variants py_eval nxt (map strip_dunder ps)))"
    unfolding from_yaml_item_def
    by (auto simp add: parse_parametrized_nonempty [OF ne] split: if_splits sum.splits)
  from yield_variants_member [OF mem] obtain p where "p \<in> set ps"
    and "item_params y = strip_dunder p"
    by auto
  then show "\<exists>p \<in> set ps. item_params y = filter (\<lambda>(k, v). \<not> startswith k ''__'') p \<and>
         map fst (item_params y) = filter (\<lambda>k. \<not> startswith k ''__'') (map fst p)"
    using keys [of p] by (auto simp add: strip_dunder_def)
qed

theorem parse_parametrized_strips_dunder_witness:
  "parse_parametrized [[(''__line__'', PyInt 3), (''b'', PyInt 2), (''a'', PyStr ''x'')]] =
     Inr [[(''b'', PyInt 2), (''a'', PyStr ''x'')]] \<and>
   foo_item\<lparr>item_params := [(''b'', PyInt 2), (''a'', PyStr ''x'')]\<rparr> \<in> set (fst (from_yaml_item no_eval
      (Some [[(''__line__'', PyInt 3), (''b'', PyInt 2), (''a'', PyStr ''x'')]]) (Inr foo_item))) \<and>
   map fst (item_params (foo_item\<lparr>item_params := [(''b'', PyInt 2), (''a'', PyStr ''x'')]\<rparr>)) =
     filter (\<lambda>k. \<not> startswith k ''__'') (map fst [(''__line__'', PyInt 3), (''b'', PyInt 2), (''a'', PyStr ''x'')])"
proof -
  let ?ps = "[[(''__line__'', PyInt 3), (''b'', PyInt 2), (''a'', PyStr ''x'')]]"
  let ?y = "foo_item\<lparr>item_params := [(''b'', PyInt 2), (''a'', PyStr ''x'')]\<rparr>"
  have pp: "parse_parametrized ?ps = Inr [[(''b'', PyInt 2), (''a'', PyStr ''x'')]]"
    by (simp add: parse_parametrized_def sorted_keys_def strip_dunder_def Let_def)
  have mem: "?y \<in> set (fst (from_yaml_item no_eval (Some ?ps) (Inr foo_item)))"
    by (simp add: from_yaml_item_def pp run_skip_def foo_item_def Let_def)
  have ne: "?ps \<noteq> []" by simp
  from parse_parametrized_strips_dunder [of ?ps "[[(''b'', PyInt 2), (''a'', PyStr ''x'')]]" ?y no_eval "Inr foo_item"]
    ne pp mem
  have "\<exists>p \<in> set ?ps. item_params ?y = filter (\<lambda>(k, v). \<not> startswith k ''__'') p \<and>
         map fst (item_params ?y) = filter (\<lambda>k. \<not> startswith k ''__'') (map fst p)"
    by blast
  then have "map fst (item_params ?y) =
     filter (\<lambda>k. \<not> startswith k ''__'') (map fst [(''__line__'', PyInt 3), (''b'', PyInt 2), (''a'', PyStr ''x'')])"
    by simp
  with pp mem show ?thesis by blast
qed

section \<open>Properties of the test name\<close>

lemma join_Cons: "join sep (x # xs) = x @ concat (map (\<lambda>y. sep @ y) xs)"
  by (induction xs arbitrary: x) simp_all

text \<open>
  Claim C9. The test name is the case name alone when \<open>item_params\<close> is empty; otherwise it
  is the case name followed by \<open>[k=v,k2=v2,...]\<close>, the pairs in the mapping's order, each
  value through \<open>str\<close>.
\<close>

theorem test_name_spec:
  "(item_params item = [] \<longrightarrow> test_name str_of item = case_name item) \<and>
   (item_params item = (k, v) # rest \<longrightarrow>
      test_name str_of item =
        case_name item @ ''['' @ k @ ''='' @ str_of v @
        concat (map (\<lambda>(k', v'). '','' @ k' @ ''='' @ str_of v') rest) @ '']'')"
  by (simp add: test_name_def join_Cons comp_def split_def)

theorem test_name_spec_witness:
  "test_name py_str foo_item = ''foo'' \<and>
   test_name py_str (foo_item\<lparr>item_params := [(''a'', PyInt 1), (''b'', PyStr ''x'')]\<rparr>) = ''foo[a=1,b=x]''"
proof -
  have "test_name py_str foo_item = case_name foo_item"
    using test_name_spec [of foo_item py_str] by (simp add: foo_item_def)
  then have a: "test_name py_str foo_item = ''foo''"
    by (simp add: foo_item_def)
  have "test_name py_str (foo_item\<lparr>item_params := [(''a'', PyInt 1), (''b'', PyStr ''x'')]\<rparr>) =
        case_name foo_item @ ''['' @ ''a'' @ ''='' @ py_str (PyInt 1) @
        concat (map (\<lambda>(k', v'). '','' @ k' @ ''='' @ py_str v') [(''b'', PyStr ''x'')]) @ '']''"
    using test_name_spec [of "foo_item\<lparr>item_params := [(''a'', PyInt 1), (''b'', PyStr ''x'')]\<rparr>"
        py_str "''a''" "PyInt 1" "[(''b'', PyStr ''x'')]"]
    by simp
  then have b: "test_name py_str (foo_item\<lparr>item_params := [(''a'', PyInt 1), (''b'', PyStr ''x'')]\<rparr>) = ''foo[a=1,b=x]''"
    by (simp add: foo_item_def str_int_def str_nat.simps digit_char_def)
  from a b show ?thesis by blast
qed

section \<open>Properties of the skip predicate\<close>

text \<open>
  Claim C2, as stated, lets the evaluated expression see three symbols only. The globals
  dictionary binds four names, \<open>sys\<close>, \<open>os\<close>, \<open>pytest\<close> and \<open>platform\<close>.
\<close>

theorem skip_globals_counterexample:
  "length skip_globals = 4 \<and> distinct (map fst skip_globals) \<and>
   map_of skip_globals ''sys'' = Some Module_sys \<and>
   map_of skip_globals ''os'' = Some Module_os \<and>
   map_of skip_globals ''pytest'' = Some Module_pytest \<and>
   map_of skip_globals ''platform'' = Some Module_platform"
  by (simp add: skip_globals_def)

text \<open>
  Claim C2, amended. A boolean is returned as it is; the strings \<open>True\<close> and \<open>False\<close> give
  the booleans; any other string is evaluated with a globals dictionary that binds
  exactly the four names \<open>sys\<close>, \<open>os\<close>, \<open>pytest\<close> and \<open>platform\<close>, and the truth value of
  the evaluation (or the exception it raises) is the result.
\<close>

theorem run_skip_spec:
  "run_skip py_eval (SkipBool b) = Inr b \<and>
   run_skip py_eval (SkipStr ''True'') = Inr True \<and>
   run_skip py_eval (SkipStr ''False'') = Inr False \<and>
   (s \<noteq> ''True'' \<and> s \<noteq> ''False'' \<longrightarrow> run_skip py_eval (SkipStr s) = py_eval s skip_globals) \<and>
   map fst skip_globals = [''sys'', ''os'', ''pytest'', ''platform'']"
  by (simp add: run_skip_def skip_globals_def)

theorem run_skip_spec_witness:
  "run_skip no_eval (SkipBool True) = Inr True \<and>
   run_skip no_eval (SkipStr ''True'') = Inr True \<and>
   run_skip no_eval (SkipStr ''False'') = Inr False \<and>
   run_skip (\<lambda>expr globals. Inr (map_of globals expr \<noteq> None)) (SkipStr ''platform'') = Inr True \<and>
   run_skip (\<lambda>expr globals. Inr (map_of globals expr \<noteq> None)) (SkipStr ''json'') = Inr False"
proof -
  have a: "run_skip no_eval (SkipBool True) = Inr True \<and>
   run_skip no_eval (SkipStr ''True'') = Inr True \<and>
   run_skip no_eval (SkipStr ''False'') = Inr False"
    using run_skip_spec [of no_eval True "''x''"] by blast
  have b: "run_skip (\<lambda>expr globals. Inr (map_of globals expr \<noteq> None)) (SkipStr ''platform'') = Inr True"
    using run_skip_spec [of "\<lambda>expr globals. Inr (map_of globals expr \<noteq> None)" True "''platform''"]
    by (simp add: skip_globals_def)
  have c: "run_skip (\<lambda>expr globals. Inr (map_of globals expr \<noteq> None)) (SkipStr ''json'') = Inr False"
    using run_skip_spec [of "\<lambda>expr globals. Inr (map_of globals expr \<noteq> None)" True "''json''"]
    by (simp add: skip_globals_def)
  from a b c show ?thesis by blast
qed

section \<open>Properties of the argument derivation\<close>

lemma list_index_first: "f \<notin> set pre \<Longrightarrow> list_index (pre @ f # rest) f = length pre"
  by (induction pre) (auto simp add: list_index_def)

lemma list_pop_pair:
  "list_pop (list_pop (pre @ f # v # post) (length pre)) (length pre) = pre @ post"
  by (simp add: list_pop_def)

lemma split_single_flag:
  assumes "f \<in> set xs" and "count_list xs f \<le> 1" and "xs \<noteq> [] \<longrightarrow> last xs \<noteq> f"
  shows "\<exists>pre v post. xs = pre @ f # v # post \<and> f \<notin> set pre \<and> f \<notin> set (pre @ post)"
proof -
  from assms(1) obtain pre rest where xs: "xs = pre @ f # rest" and pre: "f \<notin> set pre"
    by (auto dest: split_list_first)
  from assms(2) have rest: "f \<notin> set rest"
    unfolding xs by (auto simp add: count_list_0_iff)
  from assms(3) have "rest \<noteq> []"
    unfolding xs by auto
  then obtain v post where r: "rest = v # post"
    by (cases rest) auto
  with rest have "f \<notin> set post" by simp
  with xs r pre show ?thesis by auto
qed

text \<open>The list after the first block of \<open>_adjust_mypy_args\<close>.\<close>

lemma args1_removed:
  assumes "count_list xs f \<le> 1" and "xs \<noteq> [] \<longrightarrow> last xs \<noteq> f"
  defines "ys \<equiv> (if f \<in> set xs then
                  (let cd_idx = list_index xs f in
                   if length xs > cd_idx + 1 then list_pop (list_pop xs cd_idx) cd_idx else xs)
                else xs)"
  shows "f \<notin> set ys" and "set ys \<subseteq> set xs" and "count_list ys x \<le> count_list xs x"
proof -
  have "f \<notin> set ys \<and> set ys \<subseteq> set xs \<and> count_list ys x \<le> count_list xs x"
  proof (cases "f \<in> set xs")
    case False
    then show ?thesis by (simp add: ys_def)
  next
    case True
    from split_single_flag [OF True assms(1) assms(2)]
    obtain pre v post where xs: "xs = pre @ f # v # post" and pre: "f \<notin> set pre"
      and rest: "f \<notin> set (pre @ post)" by blast
    have "ys = pre @ post"
      using pre by (simp add: ys_def xs list_index_first list_pop_pair Let_def)
    with rest show ?thesis by (auto simp add: xs)
  qed
  then show "f \<notin> set ys" and "set ys \<subseteq> set xs" and "count_list ys x \<le> count_list xs x"
    by blast+
qed

lemma args1_pair:
  assumes "f \<notin> set pre"
  shows "(if f \<in> set (pre @ f # v # post) then
            (let cd_idx = list_index (pre @ f # v # post) f in
             if length (pre @ f # v # post) > cd_idx + 1
             then list_pop (list_pop (pre @ f # v # post) cd_idx) cd_idx else pre @ f # v # post)
          else pre @ f # v # post) = pre @ post"
  using assms by (simp add: list_index_first list_pop_pair Let_def)

lemma remove1_single:
  "count_list xs x \<le> 1 \<Longrightarrow> x \<notin> set (if x \<in> set xs then remove1 x xs else xs)"
  by (auto simp add: count_list_0_iff [symmetric])

lemma adjust_disabled_args:
  assumes "disable_cache info" and "\<not> is_daemon"
  shows "args (adjust_mypy_args info is_daemon os_name options) =
     (let args0 = args options;
          args1 = (if ''--cache-dir'' \<in> set args0 then
                  (let cd_idx = list_index args0 ''--cache-dir'' in
                   if length args0 > cd_idx + 1 then list_pop (list_pop args0 cd_idx) cd_idx
                   else args0)
                else args0);
          a = (if ''--incremental'' \<in> set args1 then remove1 ''--incremental'' args1 else args1)
      in (if ''--no-incremental'' \<notin> set a then a @ [''--no-incremental''] else a) @
         [''--cache-dir'', if os_name = ''nt'' then ''nul'' else ''/dev/null''])"
  using assms by (simp add: adjust_mypy_args_def Let_def)

lemma adjust_shared_args:
  assumes "\<not> disable_cache info" and "shared_cache info = Some cache" and "\<not> is_daemon"
  shows "args (adjust_mypy_args info is_daemon os_name options) =
     (let args0 = args options;
          args1 = (if ''--cache-dir'' \<in> set args0 then
                  (let cd_idx = list_index args0 ''--cache-dir'' in
                   if length args0 > cd_idx + 1 then list_pop (list_pop args0 cd_idx) cd_idx
                   else args0)
                else args0);
          a = (if ''--incremental'' \<notin> set args1 then args1 @ [''--incremental''] else args1)
      in (if ''--no-incremental'' \<in> set a then remove1 ''--no-incremental'' a else a) @
         [''--cache-dir'', path_str (cache_dir cache)])"
  using assms by (simp add: adjust_mypy_args_def Let_def)


text \<open>
  Claim C3, as stated, holds for every argument list. \<open>remove\<close> and \<open>index\<close> act on the first
  occurrence only: a second \<open>--incremental\<close> stays in the list, and so does a second
  \<open>--cache-dir\<close> pair.
\<close>

theorem adjust_mypy_args_disabled_counterexample:
  "args (adjust_mypy_args info_disabled False ''posix''
      \<lparr>args = [''--incremental'', ''--incremental''], do_followup = True\<rparr>) =
     [''--incremental'', ''--no-incremental'', ''--cache-dir'', ''/dev/null''] \<and>
   args (adjust_mypy_args info_disabled False ''posix''
      \<lparr>args = [''--cache-dir'', ''/a'', ''--cache-dir'', ''/b''], do_followup = True\<rparr>) =
     [''--cache-dir'', ''/b'', ''--no-incremental'', ''--cache-dir'', ''/dev/null'']"
  by (simp add: adjust_mypy_args_def info_disabled_def list_index_def list_pop_def)

text \<open>
  Claim C3, amended. Let the disabled-cache toggle be set and the runner not be a daemon,
  and let the argument list hold \<open>--incremental\<close> at most once and \<open>--cache-dir\<close> at most
  once and not as its last element. Then the derived list is a body followed by
  \<open>--cache-dir\<close> and the null target (\<open>nul\<close> when \<open>os.name\<close> is \<open>nt\<close>, \<open>/dev/null\<close> otherwise);
  the body has no \<open>--cache-dir\<close>, contains \<open>--no-incremental\<close>, does not contain
  \<open>--incremental\<close>, and adds nothing but \<open>--no-incremental\<close> to the arguments given. The
  body is fixed for every such list: an argument list \<open>pre @ [--cache-dir, v] @ post\<close>
  loses exactly that pair and \<open>--incremental\<close>, an argument list without \<open>--cache-dir\<close>
  loses \<open>--incremental\<close> only, and in both cases \<open>--no-incremental\<close> is put at the end
  unless it is there already; every other argument stays, in its place. The follow-up
  pass is switched off.
\<close>

theorem adjust_mypy_args_disabled:
  assumes "disable_cache info" and "\<not> is_daemon"
    and "count_list (args options) ''--incremental'' \<le> 1"
    and "count_list (args options) ''--cache-dir'' \<le> 1"
    and "args options \<noteq> [] \<longrightarrow> last (args options) \<noteq> ''--cache-dir''"
  shows "(\<exists>body.
       args (adjust_mypy_args info is_daemon os_name options) =
         body @ [''--cache-dir'', if os_name = ''nt'' then ''nul'' else ''/dev/null''] \<and>
       ''--cache-dir'' \<notin> set body \<and> ''--no-incremental'' \<in> set body \<and>
       ''--incremental'' \<notin> set body \<and>
       set body \<subseteq> insert ''--no-incremental'' (set (args options)) \<and>
       (\<forall>pre v post. args options = pre @ ''--cache-dir'' # v # post \<longrightarrow>
          body = (let a = remove1 ''--incremental'' (pre @ post)
                  in if ''--no-incremental'' \<in> set a then a else a @ [''--no-incremental''])) \<and>
       (''--cache-dir'' \<notin> set (args options) \<longrightarrow>
          body = (let a = remove1 ''--incremental'' (args options)
                  in if ''--no-incremental'' \<in> set a then a else a @ [''--no-incremental'']))) \<and>
     ''--incremental'' \<notin> set (args (adjust_mypy_args info is_daemon os_name options)) \<and>
     do_followup (adjust_mypy_args info is_daemon os_name options) = False"
proof -
  let ?f = "''--cache-dir''" and ?inc = "''--incremental''" and ?noinc = "''--no-incremental''"
  define args1 where "args1 =
    (if ?f \<in> set (args options) then
       (let cd_idx = list_index (args options) ?f in
        if length (args options) > cd_idx + 1
        then list_pop (list_pop (args options) cd_idx) cd_idx else args options)
     else args options)"
  define a where "a = (if ?inc \<in> set args1 then remove1 ?inc args1 else args1)"
  define body where "body = (if ?noinc \<notin> set a then a @ [?noinc] else a)"
  note r = args1_removed [OF assms(4) assms(5), folded args1_def]
  have res: "args (adjust_mypy_args info is_daemon os_name options) =
      body @ [?f, if os_name = ''nt'' then ''nul'' else ''/dev/null'']"
    unfolding adjust_disabled_args [OF assms(1) assms(2)] body_def a_def args1_def
    by (simp only: Let_def)
  have "count_list args1 ?inc \<le> 1"
    using r(3) [of ?inc] assms(3) by simp
  then have inc: "?inc \<notin> set a"
    unfolding a_def by (rule remove1_single)
  have sub: "set a \<subseteq> set (args options)"
    using r(2) set_remove1_subset [of ?inc args1] by (auto simp add: a_def)
  have f: "?f \<notin> set a"
    using r(1) by (simp add: a_def)
  have exact: "body = (let a = remove1 ?inc (pre @ post)
                  in if ?noinc \<in> set a then a else a @ [?noinc])"
    if eq: "args options = pre @ ?f # v # post" for pre v post
  proof -
    have "?f \<notin> set pre"
      using assms(4) unfolding eq by (auto simp add: count_list_0_iff)
    then have "args1 = pre @ post"
      unfolding args1_def eq by (rule args1_pair)
    then show ?thesis
      by (simp add: body_def a_def Let_def remove1_idem)
  qed
  have exact0: "body = (let a = remove1 ?inc (args options)
                  in if ?noinc \<in> set a then a else a @ [?noinc])"
    if absent: "?f \<notin> set (args options)"
  proof -
    from absent have "args1 = args options"
      by (simp add: args1_def)
    then show ?thesis
      by (simp add: body_def a_def Let_def remove1_idem)
  qed
  have "?f \<notin> set body \<and> ?noinc \<in> set body \<and> ?inc \<notin> set body \<and>
        set body \<subseteq> insert ?noinc (set (args options))"
    using inc sub f by (auto simp add: body_def)
  with res exact exact0 have "\<exists>body.
       args (adjust_mypy_args info is_daemon os_name options) =
         body @ [?f, if os_name = ''nt'' then ''nul'' else ''/dev/null''] \<and>
       ?f \<notin> set body \<and> ?noinc \<in> set body \<and> ?inc \<notin> set body \<and>
       set body \<subseteq> insert ?noinc (set (args options)) \<and>
       (\<forall>pre v post. args options = pre @ ?f # v # post \<longrightarrow>
          body = (let a = remove1 ?inc (pre @ post)
                  in if ?noinc \<in> set a then a else a @ [?noinc])) \<and>
       (?f \<notin> set (args options) \<longrightarrow>
          body = (let a = remove1 ?inc (args options)
                  in if ?noinc \<in> set a then a else a @ [?noinc]))"
    by blast
  moreover have "?inc \<notin> set (args (adjust_mypy_args info is_daemon os_name options))"
    using inc by (simp add: res body_def)
  moreover have "do_followup (adjust_mypy_args info is_daemon os_name options) = False"
    using assms(1) by (simp add: adjust_mypy_args_def Let_def)
  ultimately show ?thesis by blast
qed


theorem adjust_mypy_args_disabled_witness:
  "disable_cache info_disabled \<and>
   count_list [''--cache-dir'', ''/old''] ''--incremental'' \<le> 1 \<and>
   count_list [''--cache-dir'', ''/old''] ''--cache-dir'' \<le> 1 \<and>
   last [''--cache-dir'', ''/old''] \<noteq> ''--cache-dir'' \<and>
   args (adjust_mypy_args info_disabled False ''posix''
      \<lparr>args = [''--cache-dir'', ''/old''], do_followup = True\<rparr>) =
     [''--no-incremental'', ''--cache-dir'', ''/dev/null''] \<and>
   do_followup (adjust_mypy_args info_disabled False ''posix''
      \<lparr>args = [''--cache-dir'', ''/old''], do_followup = True\<rparr>) = False \<and>
   args (adjust_mypy_args info_disabled False ''posix''
      \<lparr>args = [''--strict'', ''--incremental'', ''-v''], do_followup = True\<rparr>) =
     [''--strict'', ''-v'', ''--no-incremental'', ''--cache-dir'', ''/dev/null'']"
proof -
  let ?options = "\<lparr>args = [''--cache-dir'', ''/old''], do_followup = True\<rparr>"
  let ?plain = "\<lparr>args = [''--strict'', ''--incremental'', ''-v''], do_followup = True\<rparr>"
  have h1: "disable_cache info_disabled" by (simp add: info_disabled_def)
  have h2: "\<not> False" by simp
  have h3: "count_list (args ?options) ''--incremental'' \<le> 1" by simp
  have h4: "count_list (args ?options) ''--cache-dir'' \<le> 1" by simp
  have h5: "args ?options \<noteq> [] \<longrightarrow> last (args ?options) \<noteq> ''--cache-dir''" by simp
  note t = adjust_mypy_args_disabled [OF h1 h2 h3 h4 h5, of "''posix''"]
  from t obtain body where
    res: "args (adjust_mypy_args info_disabled False ''posix'' ?options) =
            body @ [''--cache-dir'', ''/dev/null'']"
    and ex: "\<forall>pre v post. args ?options = pre @ ''--cache-dir'' # v # post \<longrightarrow>
          body = (let a = remove1 ''--incremental'' (pre @ post)
                  in if ''--no-incremental'' \<in> set a then a else a @ [''--no-incremental''])"
    by auto
  have "args ?options = [] @ ''--cache-dir'' # ''/old'' # []" by simp
  with ex have "body = (let a = remove1 ''--incremental'' ([] @ [])
                  in if ''--no-incremental'' \<in> set a then a else a @ [''--no-incremental''])"
    by blast
  then have "body = [''--no-incremental'']" by simp
  with res have "args (adjust_mypy_args info_disabled False ''posix'' ?options) =
     [''--no-incremental'', ''--cache-dir'', ''/dev/null'']" by simp
  moreover from t have "do_followup (adjust_mypy_args info_disabled False ''posix'' ?options) = False"
    by blast
  moreover have "args (adjust_mypy_args info_disabled False ''posix'' ?plain) =
     [''--strict'', ''-v'', ''--no-incremental'', ''--cache-dir'', ''/dev/null'']"
  proof -
    have p3: "count_list (args ?plain) ''--incremental'' \<le> 1" by simp
    have p4: "count_list (args ?plain) ''--cache-dir'' \<le> 1" by simp
    have p5: "args ?plain \<noteq> [] \<longrightarrow> last (args ?plain) \<noteq> ''--cache-dir''" by simp
    have absent: "''--cache-dir'' \<notin> set (args ?plain)" by simp
    from adjust_mypy_args_disabled [OF h1 h2 p3 p4 p5, of "''posix''"] obtain body' where
      res': "args (adjust_mypy_args info_disabled False ''posix'' ?plain) =
            body' @ [''--cache-dir'', ''/dev/null'']"
      and ex': "''--cache-dir'' \<notin> set (args ?plain) \<longrightarrow>
          body' = (let a = remove1 ''--incremental'' (args ?plain)
                  in if ''--no-incremental'' \<in> set a then a else a @ [''--no-incremental''])"
      by auto
    from ex' absent have "body' = (let a = remove1 ''--incremental'' (args ?plain)
                  in if ''--no-incremental'' \<in> set a then a else a @ [''--no-incremental''])"
      by blast
    then have "body' = [''--strict'', ''-v'', ''--no-incremental'']" by simp
    with res' show ?thesis by simp
  qed
  ultimately show ?thesis using h1 by simp
qed

text \<open>
  Claim C4, as stated, holds for every argument list. \<open>remove\<close> takes out the first
  \<open>--no-incremental\<close> only, so a list that holds it twice still contains it; and a second
  \<open>--cache-dir\<close> pair stays.
\<close>

theorem adjust_mypy_args_shared_counterexample:
  "args (adjust_mypy_args info_shared False ''posix''
      \<lparr>args = [''--no-incremental'', ''--no-incremental''], do_followup = True\<rparr>) =
     [''--no-incremental'', ''--incremental'', ''--cache-dir'', ''/tmp/shared_cache''] \<and>
   args (adjust_mypy_args info_shared False ''posix''
      \<lparr>args = [''--cache-dir'', ''/a'', ''--cache-dir'', ''/b''], do_followup = True\<rparr>) =
     [''--cache-dir'', ''/b'', ''--incremental'', ''--cache-dir'', ''/tmp/shared_cache'']"
  by (simp add: adjust_mypy_args_def info_shared_def tmp_cache_def path_str_def
      list_index_def list_pop_def)

text \<open>
  Claim C4, amended. Let a shared cache be attached, the disabled-cache toggle not be set
  and the runner not be a daemon, and let the argument list hold \<open>--no-incremental\<close> at most
  once and \<open>--cache-dir\<close> at most once and not as its last element. Then the derived list
  is a body followed by \<open>--cache-dir\<close> and the shared cache root; the body has no
  \<open>--cache-dir\<close>, contains \<open>--incremental\<close>, does not contain \<open>--no-incremental\<close>, and adds
  nothing but \<open>--incremental\<close> to the arguments given. The body is fixed for every such
  list: an argument list \<open>pre @ [--cache-dir, v] @ post\<close> loses exactly that pair and
  \<open>--no-incremental\<close>, an argument list without \<open>--cache-dir\<close> loses \<open>--no-incremental\<close>
  only, and in both cases \<open>--incremental\<close> is put at the end unless it is there already;
  every other argument stays, in its place. The follow-up setting is kept. And whenever the disabled-cache toggle is set, an attached
  shared cache changes nothing: the disabled derivation is the one applied.
\<close>

theorem adjust_mypy_args_shared:
  "(\<not> disable_cache info \<and> shared_cache info = Some cache \<and> \<not> is_daemon \<and>
    count_list (args options) ''--no-incremental'' \<le> 1 \<and>
    count_list (args options) ''--cache-dir'' \<le> 1 \<and>
    (args options \<noteq> [] \<longrightarrow> last (args options) \<noteq> ''--cache-dir'') \<longrightarrow>
      (\<exists>body.
         args (adjust_mypy_args info is_daemon os_name options) =
           body @ [''--cache-dir'', path_str (cache_dir cache)] \<and>
         ''--cache-dir'' \<notin> set body \<and> ''--incremental'' \<in> set body \<and>
         ''--no-incremental'' \<notin> set body \<and>
         set body \<subseteq> insert ''--incremental'' (set (args options)) \<and>
         (\<forall>pre v post. args options = pre @ ''--cache-dir'' # v # post \<longrightarrow>
            body = (let a = (if ''--incremental'' \<in> set (pre @ post) then pre @ post
                             else pre @ post @ [''--incremental''])
                    in remove1 ''--no-incremental'' a)) \<and>
         (''--cache-dir'' \<notin> set (args options) \<longrightarrow>
            body = (let a = (if ''--incremental'' \<in> set (args options) then args options
                             else args options @ [''--incremental''])
                    in remove1 ''--no-incremental'' a))) \<and>
      do_followup (adjust_mypy_args info is_daemon os_name options) = do_followup options) \<and>
   adjust_mypy_args (info\<lparr>disable_cache := True, shared_cache := Some cache\<rparr>) is_daemon os_name options =
     adjust_mypy_args (info\<lparr>disable_cache := True, shared_cache := None\<rparr>) is_daemon os_name options"
proof (intro conjI impI)
  show "adjust_mypy_args (info\<lparr>disable_cache := True, shared_cache := Some cache\<rparr>) is_daemon os_name options =
     adjust_mypy_args (info\<lparr>disable_cache := True, shared_cache := None\<rparr>) is_daemon os_name options"
    by (simp add: adjust_mypy_args_def)
next
  assume h: "\<not> disable_cache info \<and> shared_cache info = Some cache \<and> \<not> is_daemon \<and>
    count_list (args options) ''--no-incremental'' \<le> 1 \<and>
    count_list (args options) ''--cache-dir'' \<le> 1 \<and>
    (args options \<noteq> [] \<longrightarrow> last (args options) \<noteq> ''--cache-dir'')"
  then show "do_followup (adjust_mypy_args info is_daemon os_name options) = do_followup options"
    by (simp add: adjust_mypy_args_def Let_def)
  let ?f = "''--cache-dir''" and ?inc = "''--incremental''" and ?noinc = "''--no-incremental''"
  from h have h1: "\<not> disable_cache info" and h2: "shared_cache info = Some cache"
    and h3: "\<not> is_daemon" and h4: "count_list (args options) ?noinc \<le> 1"
    and h5: "count_list (args options) ?f \<le> 1"
    and h6: "args options \<noteq> [] \<longrightarrow> last (args options) \<noteq> ?f"
    by blast+
  define args1 where "args1 =
    (if ?f \<in> set (args options) then
       (let cd_idx = list_index (args options) ?f in
        if length (args options) > cd_idx + 1
        then list_pop (list_pop (args options) cd_idx) cd_idx else args options)
     else args options)"
  define a where "a = (if ?inc \<notin> set args1 then args1 @ [?inc] else args1)"
  define body where "body = (if ?noinc \<in> set a then remove1 ?noinc a else a)"
  note r = args1_removed [OF h5 h6, folded args1_def]
  have res: "args (adjust_mypy_args info is_daemon os_name options) =
      body @ [?f, path_str (cache_dir cache)]"
    unfolding adjust_shared_args [OF h1 h2 h3] body_def a_def args1_def
    by (simp only: Let_def)
  have "count_list args1 ?noinc \<le> 1"
    using r(3) [of ?noinc] h4 by simp
  then have "count_list a ?noinc \<le> 1"
    by (simp add: a_def)
  then have noinc: "?noinc \<notin> set body"
    unfolding body_def by (rule remove1_single)
  have inc: "?inc \<in> set body"
    by (simp add: body_def a_def)
  have "set body \<subseteq> set a"
    using set_remove1_subset [of ?noinc a] by (simp add: body_def)
  moreover have "set a \<subseteq> insert ?inc (set args1)"
    by (auto simp add: a_def)
  ultimately have sub: "set body \<subseteq> insert ?inc (set (args options))"
    using r(2) by blast
  have f: "?f \<notin> set body"
    using r(1) by (simp add: body_def a_def)
  have exact: "body = (let a = (if ?inc \<in> set (pre @ post) then pre @ post
                             else pre @ post @ [?inc])
                    in remove1 ?noinc a)"
    if eq: "args options = pre @ ?f # v # post" for pre v post
  proof -
    have "?f \<notin> set pre"
      using h5 unfolding eq by (auto simp add: count_list_0_iff)
    then have "args1 = pre @ post"
      unfolding args1_def eq by (rule args1_pair)
    then show ?thesis
      by (simp add: body_def a_def Let_def remove1_idem)
  qed
  have exact0: "body = (let a = (if ?inc \<in> set (args options) then args options
                             else args options @ [?inc])
                    in remove1 ?noinc a)"
    if absent: "?f \<notin> set (args options)"
  proof -
    from absent have "args1 = args options"
      by (simp add: args1_def)
    then show ?thesis
      by (simp add: body_def a_def Let_def remove1_idem)
  qed
  from res f inc noinc sub exact exact0 show "\<exists>body.
         args (adjust_mypy_args info is_daemon os_name options) =
           body @ [?f, path_str (cache_dir cache)] \<and>
         ?f \<notin> set body \<and> ?inc \<in> set body \<and> ?noinc \<notin> set body \<and>
         set body \<subseteq> insert ?inc (set (args options)) \<and>
         (\<forall>pre v post. args options = pre @ ?f # v # post \<longrightarrow>
            body = (let a = (if ?inc \<in> set (pre @ post) then pre @ post
                             else pre @ post @ [?inc])
                    in remove1 ?noinc a)) \<and>
         (?f \<notin> set (args options) \<longrightarrow>
            body = (let a = (if ?inc \<in> set (args options) then args options
                             else args options @ [?inc])
                    in remove1 ?noinc a))"
    by blast
qed

theorem adjust_mypy_args_shared_witness:
  "\<not> disable_cache info_shared \<and> shared_cache info_shared = Some tmp_cache \<and>
   count_list [''--cache-dir'', ''/old''] ''--no-incremental'' \<le> 1 \<and>
   count_list [''--cache-dir'', ''/old''] ''--cache-dir'' \<le> 1 \<and>
   last [''--cache-dir'', ''/old''] \<noteq> ''--cache-dir'' \<and>
   args (adjust_mypy_args info_shared False ''posix''
      \<lparr>args = [''--cache-dir'', ''/old''], do_followup = True\<rparr>) =
     [''--incremental'', ''--cache-dir'', ''/tmp/shared_cache''] \<and>
   do_followup (adjust_mypy_args info_shared False ''posix''
      \<lparr>args = [''--cache-dir'', ''/old''], do_followup = True\<rparr>) = True \<and>
   adjust_mypy_args (info_shared\<lparr>disable_cache := True, shared_cache := Some tmp_cache\<rparr>) False ''posix''
      \<lparr>args = [''--cache-dir'', ''/old''], do_followup = True\<rparr> =
   adjust_mypy_args (info_shared\<lparr>disable_cache := True, shared_cache := None\<rparr>) False ''posix''
      \<lparr>args = [''--cache-dir'', ''/old''], do_followup = True\<rparr> \<and>
   args (adjust_mypy_args info_shared False ''posix''
      \<lparr>args = [''--strict'', ''--no-incremental'', ''-v''], do_followup = True\<rparr>) =
     [''--strict'', ''-v'', ''--incremental'', ''--cache-dir'', ''/tmp/shared_cache'']"
proof -
  let ?options = "\<lparr>args = [''--cache-dir'', ''/old''], do_followup = True\<rparr>"
  let ?plain = "\<lparr>args = [''--strict'', ''--no-incremental'', ''-v''], do_followup = True\<rparr>"
  have h: "\<not> disable_cache info_shared \<and> shared_cache info_shared = Some tmp_cache \<and> \<not> False \<and>
    count_list (args ?options) ''--no-incremental'' \<le> 1 \<and>
    count_list (args ?options) ''--cache-dir'' \<le> 1 \<and>
    (args ?options \<noteq> [] \<longrightarrow> last (args ?options) \<noteq> ''--cache-dir'')"
    by (simp add: info_shared_def)
  note t = adjust_mypy_args_shared [of info_shared tmp_cache False ?options "''posix''"]
  from t h obtain body where
    res: "args (adjust_mypy_args info_shared False ''posix'' ?options) =
            body @ [''--cache-dir'', path_str (cache_dir tmp_cache)]"
    and ex: "\<forall>pre v post. args ?options = pre @ ''--cache-dir'' # v # post \<longrightarrow>
          body = (let a = (if ''--incremental'' \<in> set (pre @ post) then pre @ post
                             else pre @ post @ [''--incremental''])
                    in remove1 ''--no-incremental'' a)"
    by blast
  have "args ?options = [] @ ''--cache-dir'' # ''/old'' # []" by simp
  with ex have "body = (let a = (if ''--incremental'' \<in> set ([] @ []) then [] @ []
                             else [] @ [] @ [''--incremental''])
                    in remove1 ''--no-incremental'' a)"
    by blast
  then have "body = [''--incremental'']" by simp
  with res have a: "args (adjust_mypy_args info_shared False ''posix'' ?options) =
     [''--incremental'', ''--cache-dir'', ''/tmp/shared_cache'']"
    by (simp add: tmp_cache_def path_str_def)
  from t h have b: "do_followup (adjust_mypy_args info_shared False ''posix'' ?options) = True"
    by simp
  from t have c: "adjust_mypy_args (info_shared\<lparr>disable_cache := True, shared_cache := Some tmp_cache\<rparr>) False ''posix'' ?options =
   adjust_mypy_args (info_shared\<lparr>disable_cache := True, shared_cache := None\<rparr>) False ''posix'' ?options"
    by blast
  have d: "args (adjust_mypy_args info_shared False ''posix'' ?plain) =
     [''--strict'', ''-v'', ''--incremental'', ''--cache-dir'', ''/tmp/shared_cache'']"
  proof -
    have hp: "\<not> disable_cache info_shared \<and> shared_cache info_shared = Some tmp_cache \<and> \<not> False \<and>
      count_list (args ?plain) ''--no-incremental'' \<le> 1 \<and>
      count_list (args ?plain) ''--cache-dir'' \<le> 1 \<and>
      (args ?plain \<noteq> [] \<longrightarrow> last (args ?plain) \<noteq> ''--cache-dir'')"
      by (simp add: info_shared_def)
    have absent: "''--cache-dir'' \<notin> set (args ?plain)" by simp
    from adjust_mypy_args_shared [of info_shared tmp_cache False ?plain "''posix''"] hp
    obtain body' where
      res': "args (adjust_mypy_args info_shared False ''posix'' ?plain) =
            body' @ [''--cache-dir'', path_str (cache_dir tmp_cache)]"
      and ex': "''--cache-dir'' \<notin> set (args ?plain) \<longrightarrow>
          body' = (let a = (if ''--incremental'' \<in> set (args ?plain) then args ?plain
                             else args ?plain @ [''--incremental''])
                    in remove1 ''--no-incremental'' a)"
      by blast
    from ex' absent have "body' = (let a = (if ''--incremental'' \<in> set (args ?plain) then args ?plain
                             else args ?plain @ [''--incremental''])
                    in remove1 ''--no-incremental'' a)"
      by blast
    then have "body' = [''--strict'', ''-v'', ''--incremental'']" by simp
    with res' show ?thesis by (simp add: tmp_cache_def path_str_def)
  qed
  from a b c d h show ?thesis by simp
qed

section \<open>Properties of strings\<close>

lemma startswith_iff: "startswith s p \<longleftrightarrow> (\<exists>rest. s = p @ rest)"
  by (induction s p rule: startswith.induct) auto

lemma contains_iff: "contains s sub \<longleftrightarrow> (\<exists>pre post. s = pre @ sub @ post)"
proof (induction s)
  case Nil
  then show ?case by auto
next
  case (Cons c cs)
  show ?case
  proof
    assume "contains (c # cs) sub"
    then consider "startswith (c # cs) sub" | "contains cs sub" by auto
    then show "\<exists>pre post. c # cs = pre @ sub @ post"
    proof cases
      case 1
      then obtain rest where "c # cs = sub @ rest" by (auto simp add: startswith_iff)
      then have "c # cs = [] @ sub @ rest" by simp
      then show ?thesis by blast
    next
      case 2
      with Cons obtain pre post where "cs = pre @ sub @ post" by blast
      then have "c # cs = (c # pre) @ sub @ post" by simp
      then show ?thesis by blast
    qed
  next
    assume "\<exists>pre post. c # cs = pre @ sub @ post"
    then obtain pre post where eq: "c # cs = pre @ sub @ post" by blast
    show "contains (c # cs) sub"
    proof (cases pre)
      case Nil
      with eq have "startswith (c # cs) sub" by (auto simp add: startswith_iff)
      then show ?thesis by simp
    next
      case (Cons a pre')
      with eq have "cs = pre' @ sub @ post" by simp
      with Cons.IH have "contains cs sub" by blast
      then show ?thesis by simp
    qed
  qed
qed

section \<open>Properties of the templates\<close>

text \<open>
  Claim C10. A template in which \<open>{{\<close> does not occur is returned as it is. A template in
  which it occurs is rendered with a context that has the keys of the data in the same
  order, the string \<open>None\<close> wherever the data has the value \<open>None\<close>, and every other value
  unchanged; the outcome of the renderer is the outcome of \<open>render_template\<close>.
\<close>

theorem render_template_spec:
  "((\<nexists>pre post. template = pre @ ''{{'' @ post) \<longrightarrow>
      render_template jinja_render template data = Inr template) \<and>
   ((\<exists>pre post. template = pre @ ''{{'' @ post) \<longrightarrow>
      (\<exists>ctx.
         render_template jinja_render template data = jinja_render template ctx \<and>
         map fst ctx = map fst data \<and>
         (\<forall>i < length data.
            (snd (data ! i) = PyNone \<longrightarrow> snd (ctx ! i) = PyStr ''None'') \<and>
            (snd (data ! i) \<noteq> PyNone \<longrightarrow> snd (ctx ! i) = snd (data ! i))) \<and>
         PyNone \<notin> snd ` set ctx))"
proof (intro conjI impI)
  assume "\<nexists>pre post. template = pre @ ''{{'' @ post"
  then have "\<not> contains template variable_start_string"
    by (simp add: contains_iff variable_start_string_def)
  then show "render_template jinja_render template data = Inr template"
    by (simp add: render_template_def)
next
  assume "\<exists>pre post. template = pre @ ''{{'' @ post"
  then have c: "contains template variable_start_string"
    by (simp add: contains_iff variable_start_string_def)
  let ?ctx = "map (\<lambda>(k, v). (k, if v \<noteq> PyNone then v else PyStr ''None'')) data"
  have "render_template jinja_render template data = jinja_render template ?ctx"
    using c by (simp add: render_template_def)
  moreover have "map fst ?ctx = map fst data"
    by (induction data) auto
  moreover have "\<forall>i < length data.
            (snd (data ! i) = PyNone \<longrightarrow> snd (?ctx ! i) = PyStr ''None'') \<and>
            (snd (data ! i) \<noteq> PyNone \<longrightarrow> snd (?ctx ! i) = snd (data ! i))"
    by (auto simp add: split_def)
  moreover have "PyNone \<notin> snd ` set ?ctx"
    by (auto split: if_splits)
  ultimately show "\<exists>ctx.
         render_template jinja_render template data = jinja_render template ctx \<and>
         map fst ctx = map fst data \<and>
         (\<forall>i < length data.
            (snd (data ! i) = PyNone \<longrightarrow> snd (ctx ! i) = PyStr ''None'') \<and>
            (snd (data ! i) \<noteq> PyNone \<longrightarrow> snd (ctx ! i) = snd (data ! i))) \<and>
         PyNone \<notin> snd ` set ctx"
    by blast
qed

theorem render_template_spec_witness:
  "render_template (\<lambda>template ctx. Inr (concat (map (py_str \<circ> snd) ctx)))
      ''x: int = 1'' [(''a'', PyNone)] = Inr ''x: int = 1'' \<and>
   render_template (\<lambda>template ctx. Inr (concat (map (py_str \<circ> snd) ctx)))
      ''x: {{ a }}'' [(''a'', PyNone), (''b'', PyInt 3)] = Inr ''None3''"
proof -
  let ?r = "\<lambda>template ctx. Inr (concat (map (py_str \<circ> snd) ctx)) :: exn + string"
  have "\<nexists>pre post. ''x: int = 1'' = pre @ ''{{'' @ post"
    unfolding contains_iff [symmetric] by simp
  with render_template_spec [of "''x: int = 1''" ?r "[(''a'', PyNone)]"]
  have a: "render_template ?r ''x: int = 1'' [(''a'', PyNone)] = Inr ''x: int = 1''"
    by blast
  have "\<exists>pre post. ''x: {{ a }}'' = pre @ ''{{'' @ post"
    unfolding contains_iff [symmetric] by simp
  with render_template_spec [of "''x: {{ a }}''" ?r "[(''a'', PyNone), (''b'', PyInt 3)]"]
  obtain ctx where r: "render_template ?r ''x: {{ a }}'' [(''a'', PyNone), (''b'', PyInt 3)] =
      ?r ''x: {{ a }}'' ctx"
    and k: "map fst ctx = map fst [(''a'', PyNone), (''b'', PyInt 3)]"
    and v: "\<forall>i < length [(''a'', PyNone), (''b'', PyInt 3)].
            (snd ([(''a'', PyNone), (''b'', PyInt 3)] ! i) = PyNone \<longrightarrow> snd (ctx ! i) = PyStr ''None'') \<and>
            (snd ([(''a'', PyNone), (''b'', PyInt 3)] ! i) \<noteq> PyNone \<longrightarrow>
               snd (ctx ! i) = snd ([(''a'', PyNone), (''b'', PyInt 3)] ! i))"
    by blast
  from k obtain x y where cxy: "ctx = [x, y]"
    by (cases ctx; cases "tl ctx") auto
  from v [rule_format, of 0] v [rule_format, of 1] cxy
  have "snd x = PyStr ''None''" and "snd y = PyInt 3" by simp_all
  with r cxy have b: "render_template ?r ''x: {{ a }}'' [(''a'', PyNone), (''b'', PyInt 3)] = Inr ''None3''"
    by (simp add: str_int_def str_nat.simps digit_char_def)
  from a b show ?thesis by blast
qed

section \<open>Properties of the applications list\<close>

text \<open>
  Claim C7, as stated, keeps the entries the list had before and puts the contenttypes
  app first. The callback never looks at the entries it is given, so an entry that is not
  declared is lost; and a declared list that has the contenttypes app further back is
  returned in the declared order.
\<close>

theorem change_installed_apps_counterexample:
  "change_installed_apps info_plain ''INSTALLED_APPS'' [PyStr ''x.app''] =
     [Constant (PyStr ''django.contrib.contenttypes''), Constant (PyStr ''a.app'')] \<and>
   change_installed_apps
       (info_plain\<lparr>installed_apps := [PyStr ''a.app'', PyStr ''django.contrib.contenttypes'']\<rparr>)
       ''INSTALLED_APPS'' [] =
     [Constant (PyStr ''a.app''), Constant (PyStr ''django.contrib.contenttypes'')]"
  by (simp add: change_installed_apps_def info_plain_def)

text \<open>
  Claim C7, amended. The new entries of the list do not depend on the entries the list
  had. For declared applications that are all strings they are the declared applications
  in their order, with the contenttypes app put in front when it is not declared, and
  unchanged, so without a second contenttypes app, when it is; either way the
  contenttypes app is among them. A base list \<open>[]\<close> with the declared application \<open>a.app\<close>
  gives contenttypes followed by \<open>a.app\<close>.
\<close>

theorem change_installed_apps_spec:
  "change_installed_apps info variable_name values =
     change_installed_apps info variable_name values' \<and>
   (installed_apps info = map PyStr apps \<and> ''django.contrib.contenttypes'' \<notin> set apps \<longrightarrow>
      change_installed_apps info variable_name values =
        map (\<lambda>app. Constant (PyStr app)) (''django.contrib.contenttypes'' # apps)) \<and>
   (installed_apps info = map PyStr apps \<and> ''django.contrib.contenttypes'' \<in> set apps \<longrightarrow>
      change_installed_apps info variable_name values =
        map (\<lambda>app. Constant (PyStr app)) apps) \<and>
   Constant (PyStr ''django.contrib.contenttypes'') \<in>
     set (change_installed_apps info variable_name values)"
proof -
  have strs: "filter is_str (map PyStr xs) = map PyStr xs" for xs
    by (induction xs) auto
  have inj: "PyStr x \<in> set (map PyStr xs) \<longleftrightarrow> x \<in> set xs" for x xs
    by auto
  show ?thesis
    by (auto simp add: change_installed_apps_def Let_def strs image_iff)
qed

theorem change_installed_apps_spec_witness:
  "change_installed_apps info_plain ''INSTALLED_APPS'' [] =
     [Constant (PyStr ''django.contrib.contenttypes''), Constant (PyStr ''a.app'')] \<and>
   change_installed_apps (info_plain\<lparr>installed_apps := [PyStr ''django.contrib.contenttypes'', PyStr ''b.app'']\<rparr>)
       ''INSTALLED_APPS'' [] =
     [Constant (PyStr ''django.contrib.contenttypes''), Constant (PyStr ''b.app'')]"
proof -
  have "installed_apps info_plain = map PyStr [''a.app''] \<and> ''django.contrib.contenttypes'' \<notin> set [''a.app'']"
    by (simp add: info_plain_def)
  with change_installed_apps_spec [of info_plain "''INSTALLED_APPS''" "[]" "[]" "[''a.app'']"]
  have a: "change_installed_apps info_plain ''INSTALLED_APPS'' [] =
        map (\<lambda>app. Constant (PyStr app)) (''django.contrib.contenttypes'' # [''a.app''])"
    by blast
  let ?info = "info_plain\<lparr>installed_apps := [PyStr ''django.contrib.contenttypes'', PyStr ''b.app'']\<rparr>"
  have "installed_apps ?info = map PyStr [''django.contrib.contenttypes'', ''b.app''] \<and>
        ''django.contrib.contenttypes'' \<in> set [''django.contrib.contenttypes'', ''b.app'']"
    by simp
  with change_installed_apps_spec [of ?info "''INSTALLED_APPS''" "[]" "[]" "[''django.contrib.contenttypes'', ''b.app'']"]
  have b: "change_installed_apps ?info ''INSTALLED_APPS'' [] =
        map (\<lambda>app. Constant (PyStr app)) [''django.contrib.contenttypes'', ''b.app'']"
    by blast
  from a b show ?thesis by simp
qed

section \<open>Properties of the settings synthesis\<close>

lemma startswith_append: "startswith (p @ s) p"
  by (simp add: startswith_iff)

lemma py_replace_prefix:
  "old \<noteq> [] \<Longrightarrow> py_replace old new (old @ s) = new @ py_replace old new s"
  by (subst py_replace.simps) (simp add: startswith_append)

lemma py_replace_absent:
  "old \<noteq> [] \<Longrightarrow> \<not> contains s old \<Longrightarrow> py_replace old new s = s"
proof (induction s)
  case Nil
  then show ?case by (subst py_replace.simps) simp
next
  case (Cons c cs)
  then have "\<not> startswith (c # cs) old" and "\<not> contains cs old" by simp_all
  with Cons show ?case by (subst py_replace.simps) simp
qed

lemma monkeypatch_str_nonempty: "monkeypatch_str \<noteq> []"
  by (simp add: monkeypatch_str_def)

lemma apply_monkeypatch_shape:
  "apply_monkeypatch toggle s =
     (if toggle then monkeypatch_str else []) @ py_replace monkeypatch_str [] s"
  by (simp add: apply_monkeypatch_def)

lemma apply_monkeypatch_fixed:
  assumes "\<not> contains text monkeypatch_str"
  shows "apply_monkeypatch toggle ((if toggle then monkeypatch_str else []) @ text) =
         (if toggle then monkeypatch_str else []) @ text"
  using assms
  by (simp add: apply_monkeypatch_def py_replace_prefix py_replace_absent monkeypatch_str_nonempty)

lemma determine_shape:
  "\<exists>t. determine_django_settings_content after_change info existing =
        apply_monkeypatch (monkeypatch info) t"
  unfolding determine_django_settings_content_def Let_def split_def
  by (rule exI) (rule refl)

text \<open>
  Claim C6, as stated, holds for every settings text. \<open>replace\<close> takes out the occurrences
  it finds in one pass from left to right; where one occurrence of the snippet sits inside
  another, taking it out leaves a snippet behind. For such a text, and a structural step
  that returns what it reads, the result has the snippet although the toggle is off, a
  second run no longer has it, and with the toggle on the result has the snippet twice.
\<close>

theorem settings_nested_snippet_counterexample:
  "determine_django_settings_content read_only_change info_plain (Some nested_settings) =
     [CHR 0x22, CHR 0x22, CHR 0x22] @ monkeypatch_str @ [CHR 0x22, CHR 0x22, CHR 0x22] \<and>
   determine_django_settings_content read_only_change info_plain
     (Some ([CHR 0x22, CHR 0x22, CHR 0x22] @ monkeypatch_str @ [CHR 0x22, CHR 0x22, CHR 0x22])) =
     [CHR 0x22, CHR 0x22, CHR 0x22, CHR 0x22, CHR 0x22, CHR 0x22] \<and>
   determine_django_settings_content read_only_change (info_plain\<lparr>monkeypatch := True\<rparr>)
     (Some nested_settings) =
     monkeypatch_str @ [CHR 0x22, CHR 0x22, CHR 0x22] @ monkeypatch_str @ [CHR 0x22, CHR 0x22, CHR 0x22]"
  by code_simp

text \<open>
  Claim C6, amended. The last step of the synthesis takes the snippet out of the text and
  puts it in front when the toggle is set. For a text in which nothing of the snippet is
  left once its occurrences are taken out, the result of the step has the snippet exactly
  when the toggle is set, then once and in front, and the step applied to its own result
  changes nothing. With custom settings the synthesis does not read the settings file, so
  a second run returns what the first returned. Without custom settings, a second run on
  the text the first run wrote returns that text, provided that text has no snippet
  behind the one in front and the structural step returns it as it is, with \<open>SECRET_KEY\<close>
  found.
\<close>

theorem settings_monkeypatch_idempotent:
  "apply_monkeypatch toggle new_settings =
     (if toggle then monkeypatch_str else []) @ py_replace monkeypatch_str [] new_settings \<and>
   (\<not> contains (py_replace monkeypatch_str [] new_settings) monkeypatch_str \<longrightarrow>
      apply_monkeypatch toggle (apply_monkeypatch toggle new_settings) = apply_monkeypatch toggle new_settings \<and>
      (contains (apply_monkeypatch toggle new_settings) monkeypatch_str \<longleftrightarrow> toggle) \<and>
      py_replace monkeypatch_str [] (apply_monkeypatch toggle new_settings) =
        py_replace monkeypatch_str [] new_settings) \<and>
   (custom_settings info = Some custom \<and> custom \<noteq> [] \<longrightarrow>
      determine_django_settings_content after_change info existing =
      determine_django_settings_content after_change info existing') \<and>
   ((custom_settings info = None \<or> custom_settings info = Some []) \<and>
    out = determine_django_settings_content after_change info existing \<and>
    \<not> contains (if monkeypatch info then drop (length monkeypatch_str) out else out)
        monkeypatch_str \<and>
    after_change (Some (change_installed_apps info ''INSTALLED_APPS'')) (Some out)
        ''\<newline>INSTALLED_APPS=[]'' = (out, True) \<longrightarrow>
      determine_django_settings_content after_change info (Some out) = out)"
proof (intro conjI impI)
  note shape = apply_monkeypatch_shape
  show "apply_monkeypatch toggle new_settings =
     (if toggle then monkeypatch_str else []) @ py_replace monkeypatch_str [] new_settings"
    by (rule shape)
  {
    assume clean: "\<not> contains (py_replace monkeypatch_str [] new_settings) monkeypatch_str"
    show "apply_monkeypatch toggle (apply_monkeypatch toggle new_settings) = apply_monkeypatch toggle new_settings"
      unfolding shape [of toggle new_settings] by (rule apply_monkeypatch_fixed [OF clean])
    show "contains (apply_monkeypatch toggle new_settings) monkeypatch_str \<longleftrightarrow> toggle"
    proof (cases toggle)
      case True
      have "monkeypatch_str @ py_replace monkeypatch_str [] new_settings =
            [] @ monkeypatch_str @ py_replace monkeypatch_str [] new_settings" by simp
      then have "contains (monkeypatch_str @ py_replace monkeypatch_str [] new_settings) monkeypatch_str"
        unfolding contains_iff by blast
      with True show ?thesis by (simp add: shape)
    next
      case False
      with clean show ?thesis by (simp add: shape)
    qed
    show "py_replace monkeypatch_str [] (apply_monkeypatch toggle new_settings) =
        py_replace monkeypatch_str [] new_settings"
      using clean
      by (simp add: shape py_replace_prefix py_replace_absent monkeypatch_str_nonempty)
  }
  {
    assume "custom_settings info = Some custom \<and> custom \<noteq> []"
    then show "determine_django_settings_content after_change info existing =
      determine_django_settings_content after_change info existing'"
      by (simp add: determine_django_settings_content_def)
  }
  {
    assume h: "(custom_settings info = None \<or> custom_settings info = Some []) \<and>
      out = determine_django_settings_content after_change info existing \<and>
      \<not> contains (if monkeypatch info then drop (length monkeypatch_str) out else out)
        monkeypatch_str \<and>
      after_change (Some (change_installed_apps info ''INSTALLED_APPS'')) (Some out)
        ''\<newline>INSTALLED_APPS=[]'' = (out, True)"
    then have nocustom: "(case custom_settings info of None \<Rightarrow> [] | Some s \<Rightarrow> s) = []"
      by auto
    from h have out: "out = determine_django_settings_content after_change info existing"
      and stable: "after_change (Some (change_installed_apps info ''INSTALLED_APPS'')) (Some out)
        ''\<newline>INSTALLED_APPS=[]'' = (out, True)"
      and clean: "\<not> contains (if monkeypatch info then drop (length monkeypatch_str) out else out)
        monkeypatch_str"
      by blast+
    obtain t where first: "out = apply_monkeypatch (monkeypatch info) t"
      unfolding out using determine_shape by blast
    define r where "r = py_replace monkeypatch_str [] t"
    have out_r: "out = (if monkeypatch info then monkeypatch_str else []) @ r"
      unfolding first r_def by (rule shape)
    from clean have "\<not> contains r monkeypatch_str"
      by (simp add: out_r split: if_splits)
    then have fixed: "apply_monkeypatch (monkeypatch info) out = out"
      unfolding out_r by (rule apply_monkeypatch_fixed)
    have "determine_django_settings_content after_change info (Some out) =
          apply_monkeypatch (monkeypatch info) out"
      unfolding determine_django_settings_content_def
      by (simp add: nocustom stable Let_def)
    with fixed show "determine_django_settings_content after_change info (Some out) = out"
      by simp
  }
qed


theorem settings_monkeypatch_idempotent_witness:
  "\<not> contains (py_replace monkeypatch_str [] (monkeypatch_str @ ''X = 1\<newline>'' @ monkeypatch_str))
       monkeypatch_str \<and>
   apply_monkeypatch True (monkeypatch_str @ ''X = 1\<newline>'' @ monkeypatch_str) =
     monkeypatch_str @ ''X = 1\<newline>'' \<and>
   apply_monkeypatch True (apply_monkeypatch True (monkeypatch_str @ ''X = 1\<newline>'' @ monkeypatch_str)) =
     apply_monkeypatch True (monkeypatch_str @ ''X = 1\<newline>'' @ monkeypatch_str) \<and>
   determine_django_settings_content read_only_change info_plain
       (Some (monkeypatch_str @ ''X = 1\<newline>'' @ monkeypatch_str)) = ''X = 1\<newline>'' \<and>
   determine_django_settings_content read_only_change info_plain
       (Some (determine_django_settings_content read_only_change info_plain
          (Some (monkeypatch_str @ ''X = 1\<newline>'' @ monkeypatch_str)))) =
     determine_django_settings_content read_only_change info_plain
       (Some (monkeypatch_str @ ''X = 1\<newline>'' @ monkeypatch_str))"
proof -
  let ?t = "monkeypatch_str @ ''X = 1\<newline>'' @ monkeypatch_str"
  let ?out = "determine_django_settings_content read_only_change info_plain (Some ?t)"
  note inst = settings_monkeypatch_idempotent
    [where toggle = True and new_settings = ?t and info = info_plain
       and after_change = read_only_change and existing = "Some ?t" and out = ?out]
  have r: "py_replace monkeypatch_str [] ?t = ''X = 1\<newline>''"
    by code_simp
  have clean: "\<not> contains (py_replace monkeypatch_str [] ?t) monkeypatch_str"
    unfolding r by code_simp
  from inst have "apply_monkeypatch True ?t = monkeypatch_str @ py_replace monkeypatch_str [] ?t"
    by simp
  then have a: "apply_monkeypatch True ?t = monkeypatch_str @ ''X = 1\<newline>''"
    unfolding r .
  from inst clean have b: "apply_monkeypatch True (apply_monkeypatch True ?t) = apply_monkeypatch True ?t"
    by blast
  have out: "?out = ''X = 1\<newline>''"
    by code_simp
  have h1: "custom_settings info_plain = None"
    by (simp add: info_plain_def)
  have h2: "\<not> contains (if monkeypatch info_plain then drop (length monkeypatch_str) ?out else ?out)
              monkeypatch_str"
    unfolding out by code_simp
  have h3: "read_only_change (Some (change_installed_apps info_plain ''INSTALLED_APPS'')) (Some ?out)
              ''\<newline>INSTALLED_APPS=[]'' = (?out, True)"
    by (simp add: read_only_change_def)
  from inst h1 h2 h3
  have c: "determine_django_settings_content read_only_change info_plain (Some ?out) = ?out"
    by blast
  from clean a b out c show ?thesis by blast
qed

section \<open>Properties of paths\<close>

lemma split_no_sep: "sep \<notin> set s \<Longrightarrow> split sep s = [s]"
  by (induction s) auto

lemma parse_path_single:
  assumes "CHR ''/'' \<notin> set s" and "s \<noteq> []" and "s \<noteq> ''.''"
  shows "parse_path s = Path [] [s]"
proof -
  from assms(1,2) have "\<not> startswith s ''/''"
    by (cases s) auto
  with assms show ?thesis
    by (simp add: parse_path_def parse_root_def split_no_sep)
qed

lemma digit_char_not_slash: "d < 10 \<Longrightarrow> digit_char d \<noteq> CHR ''/''"
proof -
  assume "d < 10"
  then have "digit_char d \<in> set ''0123456789''"
    unfolding digit_char_def by (intro nth_mem) simp
  then show ?thesis by auto
qed

lemma str_nat_no_slash: "CHR ''/'' \<notin> set (str_nat n)"
proof (induction n rule: str_nat.induct)
  case (1 n)
  show ?case
  proof (cases "n < 10")
    case True
    then show ?thesis
      using digit_char_not_slash [of n] by (subst str_nat.simps) auto
  next
    case False
    have "n mod 10 < 10" by simp
    then have "digit_char (n mod 10) \<noteq> CHR ''/''" by (rule digit_char_not_slash)
    with False 1 show ?thesis
      by (subst str_nat.simps) auto
  qed
qed

lemma str_nat_nonempty: "str_nat n \<noteq> []"
  by (subst str_nat.simps) simp

lemma parse_path_version_dir: "parse_path (version_dir v) = Path [] [version_dir v]"
proof (rule parse_path_single)
  show "CHR ''/'' \<notin> set (version_dir v)"
    by (simp add: version_dir_def str_nat_no_slash)
  show "version_dir v \<noteq> []"
    by (simp add: version_dir_def str_nat_nonempty)
  have "length (version_dir v) \<ge> 2"
    using str_nat_nonempty [of "fst v"]
    by (cases "str_nat (fst v)") (simp_all add: version_dir_def)
  then show "version_dir v \<noteq> ''.''" by auto
qed

lemma joinpath_version_dir:
  "joinpath (Path r cs) (version_dir v) = Path r (cs @ [version_dir v])"
  by (simp add: joinpath_def parse_path_version_dir)

lemma joinpath_relative:
  "parse_path s = Path [] ps \<Longrightarrow> joinpath (Path r xs) s = Path r (xs @ ps)"
  by (simp add: joinpath_def)

lemma name_snoc: "name (Path r (xs @ [x])) = x"
  by (simp add: name_def)

lemma suffix_snoc: "suffix (Path r (xs @ [x])) = suffix (Path [] [x])"
  unfolding suffix_def name_def Let_def by simp

lemma with_suffix_snoc:
  "with_suffix (Path r (xs @ [x])) suf =
     (case with_suffix (Path [] [x]) suf of Inl e \<Rightarrow> Inl e | Inr q \<Rightarrow> Inr (Path r (xs @ parts q)))"
  by (simp add: with_suffix_def name_snoc suffix_snoc Let_def)
    (simp add: name_def suffix_def)

lemma with_suffix_empty_stem:
  assumes "with_suffix (Path [] [nm]) [] = Inr (Path [] [stem])"
  shows "stem \<noteq> []"
proof -
  from assms have nm: "nm \<noteq> []"
    by (auto simp add: with_suffix_def name_def split: if_splits)
  show ?thesis
  proof (cases "suffix (Path [] [nm]) = []")
    case True
    with assms nm show ?thesis
      by (auto simp add: with_suffix_def name_def Let_def split: if_splits)
  next
    case False
    define i where "i = rfind nm CHR ''.''"
    from False have i: "0 < i" "i < int (length nm) - 1"
      and suf: "suffix (Path [] [nm]) = drop (nat i) nm"
      by (auto simp add: suffix_def name_def Let_def i_def split: if_splits)
    from assms False have "stem = take (length nm - length (suffix (Path [] [nm]))) nm"
      by (auto simp add: with_suffix_def name_def Let_def split: if_splits)
    with suf i have "stem = take (nat i) nm" by simp
    with i nm show ?thesis by auto
  qed
qed

lemma with_suffix_append:
  assumes "stem \<noteq> []" and "suffix (Path [] [stem]) = []"
    and "suf \<noteq> []" and "startswith suf ''.''" and "suf \<noteq> ''.''" and "CHR ''/'' \<notin> set suf"
  shows "with_suffix (Path r (xs @ [stem])) suf = Inr (Path r (xs @ [stem @ suf]))"
  using assms by (simp add: with_suffix_def name_snoc suffix_snoc)

lemma parents_Nil: "parents (Path r []) = []"
  by (simp add: parents_def)

lemma parents_snoc: "parents (Path r (xs @ [x])) = Path r xs # parents (Path r xs)"
  by (simp add: parents_def)

lemma parents_chain:
  "parents (Path r (base @ ds @ [x])) =
     map (\<lambda>k. Path r (base @ take k ds)) (rev [0..<Suc (length ds)]) @ parents (Path r base)"
proof (induction ds arbitrary: x rule: rev_induct)
  case Nil
  then show ?case using parents_snoc [of r base x] by simp
next
  case (snoc y ds)
  have "parents (Path r (base @ (ds @ [y]) @ [x])) =
        Path r (base @ ds @ [y]) # parents (Path r (base @ ds @ [y]))"
    using parents_snoc [of r "base @ ds @ [y]" x] by simp
  also have "\<dots> = Path r (base @ ds @ [y]) #
      map (\<lambda>k. Path r (base @ take k ds)) (rev [0..<Suc (length ds)]) @ parents (Path r base)"
    by (simp only: snoc.IH)
  also have "\<dots> =
      map (\<lambda>k. Path r (base @ take k (ds @ [y]))) (rev [0..<Suc (length (ds @ [y]))]) @
      parents (Path r base)"
    by simp
  finally show ?case .
qed


section \<open>Properties of the cache eviction\<close>

lemma has_entries_dirs_mono:
  "\<not> has_entries fs d \<Longrightarrow> \<not> has_entries (fs\<lparr>dirs := dirs fs - S\<rparr>) d"
  by (auto simp add: has_entries_def)

text \<open>
  The walk over the ancestors \<open>ancs\<close> below the cache root, nearest first: a first run of
  them is removed (those of it that exist, each empty by then), and the walk stops at
  the first directory that has an entry, or at the cache root.
\<close>

lemma prune_parents_walk:
  assumes "\<forall>d \<in> set ancs. d \<noteq> cd \<and> is_relative_to d cd \<and> d \<notin> files fs"
  shows "\<exists>removed kept.
      ancs = removed @ kept \<and>
      prune_parents cd (ancs @ cd # rest) fs = Inr (fs\<lparr>dirs := dirs fs - set removed\<rparr>) \<and>
      (\<forall>d \<in> set removed. d \<in> dirs fs \<longrightarrow> \<not> has_entries (fs\<lparr>dirs := dirs fs - set removed\<rparr>) d) \<and>
      (kept \<noteq> [] \<longrightarrow> hd kept \<in> dirs fs - set removed \<and>
         has_entries (fs\<lparr>dirs := dirs fs - set removed\<rparr>) (hd kept))"
  using assms
proof (induction ancs arbitrary: fs)
  case Nil
  show ?case
  proof (intro exI conjI)
    show "[] = [] @ ([] :: path list)" by simp
    show "prune_parents cd ([] @ cd # rest) fs = Inr (fs\<lparr>dirs := dirs fs - set []\<rparr>)"
      by simp
    show "\<forall>d \<in> set []. d \<in> dirs fs \<longrightarrow> \<not> has_entries (fs\<lparr>dirs := dirs fs - set []\<rparr>) d"
      by simp
    show "([] :: path list) \<noteq> [] \<longrightarrow> hd [] \<in> dirs fs - set [] \<and>
         has_entries (fs\<lparr>dirs := dirs fs - set []\<rparr>) (hd [])"
      by simp
  qed
next
  case (Cons d ancs)
  from Cons.prems have d: "d \<noteq> cd" "is_relative_to d cd" "d \<notin> files fs"
    and rest_ok: "\<forall>d \<in> set ancs. d \<noteq> cd \<and> is_relative_to d cd \<and> d \<notin> files fs"
    by simp_all
  show ?case
  proof (cases "d \<in> dirs fs")
    case False
    with d have step: "prune_parents cd ((d # ancs) @ cd # rest) fs =
        prune_parents cd (ancs @ cd # rest) fs"
      by (simp add: path_exists_def)
    from Cons.IH [OF rest_ok] obtain removed kept where
      split: "ancs = removed @ kept"
      and res: "prune_parents cd (ancs @ cd # rest) fs = Inr (fs\<lparr>dirs := dirs fs - set removed\<rparr>)"
      and empty: "\<forall>d \<in> set removed. d \<in> dirs fs \<longrightarrow>
          \<not> has_entries (fs\<lparr>dirs := dirs fs - set removed\<rparr>) d"
      and stop: "kept \<noteq> [] \<longrightarrow> hd kept \<in> dirs fs - set removed \<and>
          has_entries (fs\<lparr>dirs := dirs fs - set removed\<rparr>) (hd kept)"
      by blast
    have eq: "dirs fs - set (d # removed) = dirs fs - set removed"
      using False by auto
    show ?thesis
    proof (intro exI conjI)
      show "d # ancs = (d # removed) @ kept"
        using split by simp
      show "prune_parents cd ((d # ancs) @ cd # rest) fs =
        Inr (fs\<lparr>dirs := dirs fs - set (d # removed)\<rparr>)"
        unfolding step res eq ..
      show "\<forall>x \<in> set (d # removed). x \<in> dirs fs \<longrightarrow>
          \<not> has_entries (fs\<lparr>dirs := dirs fs - set (d # removed)\<rparr>) x"
        unfolding eq using empty False by auto
      show "kept \<noteq> [] \<longrightarrow> hd kept \<in> dirs fs - set (d # removed) \<and>
          has_entries (fs\<lparr>dirs := dirs fs - set (d # removed)\<rparr>) (hd kept)"
        unfolding eq using stop .
    qed
  next
    case True
    show ?thesis
    proof (cases "has_entries fs d")
      case nonempty: True
      have same: "fs\<lparr>dirs := dirs fs - set []\<rparr> = fs" by simp
      show ?thesis
      proof (intro exI conjI)
        show "d # ancs = [] @ (d # ancs)" by simp
        show "prune_parents cd ((d # ancs) @ cd # rest) fs = Inr (fs\<lparr>dirs := dirs fs - set []\<rparr>)"
          unfolding same using d True nonempty
          by (simp add: path_exists_def iterdir_nonempty_def)
        show "\<forall>x \<in> set []. x \<in> dirs fs \<longrightarrow> \<not> has_entries (fs\<lparr>dirs := dirs fs - set []\<rparr>) x"
          by simp
        show "d # ancs \<noteq> [] \<longrightarrow> hd (d # ancs) \<in> dirs fs - set [] \<and>
          has_entries (fs\<lparr>dirs := dirs fs - set []\<rparr>) (hd (d # ancs))"
          unfolding same using True nonempty by simp
      qed
    next
      case empty_d: False
      define fs1 where "fs1 = fs\<lparr>dirs := dirs fs - {d}\<rparr>"
      have files1: "files fs1 = files fs" and dirs1: "dirs fs1 = dirs fs - {d}"
        by (simp_all add: fs1_def)
      have step: "prune_parents cd ((d # ancs) @ cd # rest) fs =
          prune_parents cd (ancs @ cd # rest) fs1"
        using d True empty_d
        by (simp add: path_exists_def iterdir_nonempty_def rmdir_def fs1_def)
      have "\<forall>d \<in> set ancs. d \<noteq> cd \<and> is_relative_to d cd \<and> d \<notin> files fs1"
        unfolding files1 by (rule rest_ok)
      from Cons.IH [OF this] obtain removed kept where
        split: "ancs = removed @ kept"
        and res: "prune_parents cd (ancs @ cd # rest) fs1 = Inr (fs1\<lparr>dirs := dirs fs1 - set removed\<rparr>)"
        and empty: "\<forall>x \<in> set removed. x \<in> dirs fs1 \<longrightarrow>
            \<not> has_entries (fs1\<lparr>dirs := dirs fs1 - set removed\<rparr>) x"
        and stop: "kept \<noteq> [] \<longrightarrow> hd kept \<in> dirs fs1 - set removed \<and>
            has_entries (fs1\<lparr>dirs := dirs fs1 - set removed\<rparr>) (hd kept)"
        by blast
      have dirs_eq: "dirs fs1 - set removed = dirs fs - set (d # removed)"
        unfolding dirs1 by auto
      have fs_eq2: "fs1\<lparr>dirs := dirs fs - set (d # removed)\<rparr> = fs\<lparr>dirs := dirs fs - set (d # removed)\<rparr>"
        by (simp add: fs1_def)
      have fs_eq: "fs1\<lparr>dirs := dirs fs1 - set removed\<rparr> = fs\<lparr>dirs := dirs fs - set (d # removed)\<rparr>"
        unfolding dirs_eq by (rule fs_eq2)
      show ?thesis
      proof (intro exI conjI)
        show "d # ancs = (d # removed) @ kept"
          using split by simp
        show "prune_parents cd ((d # ancs) @ cd # rest) fs =
          Inr (fs\<lparr>dirs := dirs fs - set (d # removed)\<rparr>)"
          unfolding step res fs_eq ..
        show "\<forall>x \<in> set (d # removed). x \<in> dirs fs \<longrightarrow>
            \<not> has_entries (fs\<lparr>dirs := dirs fs - set (d # removed)\<rparr>) x"
        proof (intro ballI impI)
          fix x assume x: "x \<in> set (d # removed)" and xd: "x \<in> dirs fs"
          show "\<not> has_entries (fs\<lparr>dirs := dirs fs - set (d # removed)\<rparr>) x"
          proof (cases "x = d")
            case True
            from empty_d show ?thesis unfolding True by (rule has_entries_dirs_mono)
          next
            case False
            with x xd have "x \<in> set removed" and "x \<in> dirs fs1"
              unfolding dirs1 by simp_all
            with empty have "\<not> has_entries (fs1\<lparr>dirs := dirs fs1 - set removed\<rparr>) x"
              by blast
            then show ?thesis unfolding fs_eq .
          qed
        qed
        show "kept \<noteq> [] \<longrightarrow> hd kept \<in> dirs fs - set (d # removed) \<and>
            has_entries (fs\<lparr>dirs := dirs fs - set (d # removed)\<rparr>) (hd kept)"
          using stop unfolding dirs_eq fs_eq2 .
      qed
    qed
  qed
qed


lemma unlink_missing_ok_file:
  assumes "p \<notin> dirs fs" and "\<forall>q \<in> set (parents p). q \<notin> files fs"
  shows "unlink_missing_ok fs p = Inr (fs\<lparr>files := files fs - {p}\<rparr>)"
  using assms by (auto simp add: unlink_missing_ok_def)

text \<open>
  Claim C5, as stated, takes the artifacts to be the source path without its extension
  followed by \<open>.data.json\<close> and \<open>.meta.json\<close>. \<open>with_suffix\<close> replaces a suffix that is
  still there: for \<open>pkg/mod.foo.py\<close> the artifacts of \<open>pkg/mod.foo\<close> stay and those of
  \<open>pkg/mod\<close> are removed.
\<close>

theorem remove_cache_for_dotted_counterexample:
  "remove_cache_for (3, 12) root_cache ''pkg/mod.foo.py'' fs_dotted =
     Inr \<lparr>files = {Path ''/'' [''c'', ''3.12'', ''pkg'', ''mod.foo.data.json''],
                 Path ''/'' [''c'', ''3.12'', ''pkg'', ''mod.foo.meta.json'']},
          dirs = {Path ''/'' [], Path ''/'' [''c''], Path ''/'' [''c'', ''3.12''],
                  Path ''/'' [''c'', ''3.12'', ''pkg'']}\<rparr>"
  by code_simp

text \<open>
  Claim C5, amended. Let the source path be relative with plain components, the last of
  them \<open>nm\<close>, and let \<open>stem\<close>, the name \<open>nm\<close> without its extension, have no further
  extension. Let the two artifact paths
  \<open><cache_dir>/<major>.<minor>/<directories>/<stem>.data.json\<close> and \<open>.meta.json\<close> not be
  directories and none of their ancestors be a regular file. Then eviction returns
  without an error; the files afterwards are the files before without the two artifacts
  (an artifact that is missing is no error); the ancestor directories below the cache
  root, nearest first, split into a run that is removed and the rest that is kept; every
  removed directory that existed is empty at the end; if a directory is kept, the first
  kept one exists and has an entry, which is where the walk stopped; and the cache root
  is a directory afterwards exactly if it was one before.
\<close>

theorem remove_cache_for_evicts:
  assumes cd: "cache_dir self = Path r cs"
    and p: "parse_path path_arg = Path [] (ds @ [nm])"
    and plain: "''..'' \<notin> set (ds @ [nm])"
    and st: "with_suffix (Path [] [nm]) [] = Inr (Path [] [stem])"
    and single: "suffix (Path [] [stem]) = []"
    and nd1: "Path r (cs @ version_dir v # ds @ [stem @ ''.data.json'']) \<notin> dirs fs"
    and nd2: "Path r (cs @ version_dir v # ds @ [stem @ ''.meta.json'']) \<notin> dirs fs"
    and nf: "\<forall>q \<in> set (parents (Path r (cs @ version_dir v # ds @ [stem]))). q \<notin> files fs"
  shows "\<exists>fs' removed kept.
      remove_cache_for v self path_arg fs = Inr fs' \<and>
      files fs' = files fs -
        {Path r (cs @ version_dir v # ds @ [stem @ ''.data.json'']),
         Path r (cs @ version_dir v # ds @ [stem @ ''.meta.json''])} \<and>
      map (\<lambda>k. Path r (cs @ version_dir v # take k ds)) (rev [0..<Suc (length ds)]) =
        removed @ kept \<and>
      dirs fs' = dirs fs - set removed \<and>
      (\<forall>d \<in> set removed. d \<in> dirs fs \<longrightarrow> \<not> has_entries fs' d) \<and>
      (kept \<noteq> [] \<longrightarrow> hd kept \<in> dirs fs' \<and> has_entries fs' (hd kept)) \<and>
      (cache_dir self \<in> dirs fs' \<longleftrightarrow> cache_dir self \<in> dirs fs)"
proof -
  define base where "base = cs @ [version_dir v]"
  define cache_file where "cache_file = Path r ((base @ ds) @ [stem])"
  define data where "data = Path r ((base @ ds) @ [stem @ ''.data.json''])"
  define meta where "meta = Path r ((base @ ds) @ [stem @ ''.meta.json''])"
  define ancs where "ancs = map (\<lambda>k. Path r (base @ take k ds)) (rev [0..<Suc (length ds)])"
  define fs1 where "fs1 = fs\<lparr>files := files fs - {data}\<rparr>"
  define fs2 where "fs2 = fs1\<lparr>files := files fs1 - {meta}\<rparr>"
  have data_eq: "Path r (cs @ version_dir v # ds @ [stem @ ''.data.json'']) = data"
    and meta_eq: "Path r (cs @ version_dir v # ds @ [stem @ ''.meta.json'']) = meta"
    and cf_eq: "Path r (cs @ version_dir v # ds @ [stem]) = cache_file"
    by (simp_all add: data_def meta_def cache_file_def base_def)
  have ancs_eq: "map (\<lambda>k. Path r (cs @ version_dir v # take k ds)) (rev [0..<Suc (length ds)]) = ancs"
    by (simp add: ancs_def base_def)
  have j: "joinpath (joinpath (cache_dir self) (version_dir v)) path_arg = Path r ((base @ ds) @ [nm])"
    unfolding cd joinpath_version_dir joinpath_relative [OF p] base_def by simp
  have cf: "with_suffix (Path r ((base @ ds) @ [nm])) [] = Inr cache_file"
    unfolding with_suffix_snoc [of r "base @ ds" nm] st cache_file_def by simp
  have stem: "stem \<noteq> []"
    using st by (rule with_suffix_empty_stem)
  have wd: "with_suffix cache_file ''.data.json'' = Inr data"
    unfolding cache_file_def data_def
    by (rule with_suffix_append [OF stem single]) simp_all
  have wm: "with_suffix cache_file ''.meta.json'' = Inr meta"
    unfolding cache_file_def meta_def
    by (rule with_suffix_append [OF stem single]) simp_all
  have par_data: "parents data = parents cache_file"
    and par_meta: "parents meta = parents cache_file"
    unfolding data_def meta_def cache_file_def parents_snoc by simp_all
  from nf have nf': "\<forall>q \<in> set (parents cache_file). q \<notin> files fs"
    unfolding cf_eq .
  have u1: "unlink_missing_ok fs data = Inr fs1"
    unfolding fs1_def
  proof (rule unlink_missing_ok_file)
    show "data \<notin> dirs fs" using nd1 unfolding data_eq .
    show "\<forall>q \<in> set (parents data). q \<notin> files fs" unfolding par_data by (rule nf')
  qed
  have files1: "files fs1 = files fs - {data}" and dirs1: "dirs fs1 = dirs fs"
    by (simp_all add: fs1_def)
  have u2: "unlink_missing_ok fs1 meta = Inr fs2"
    unfolding fs2_def
  proof (rule unlink_missing_ok_file)
    show "meta \<notin> dirs fs1" using nd2 unfolding meta_eq dirs1 .
    show "\<forall>q \<in> set (parents meta). q \<notin> files fs1"
      unfolding par_meta files1 using nf' by blast
  qed
  have files2: "files fs2 = files fs - {data, meta}" and dirs2: "dirs fs2 = dirs fs"
    by (auto simp add: fs2_def fs1_def)
  have par: "parents cache_file = ancs @ Path r cs # parents (Path r cs)"
  proof -
    have "parents cache_file = ancs @ parents (Path r base)"
      unfolding cache_file_def ancs_def using parents_chain [of r base ds stem] by simp
    also have "parents (Path r base) = Path r cs # parents (Path r cs)"
      unfolding base_def by (rule parents_snoc)
    finally show ?thesis .
  qed
  have run: "remove_cache_for v self path_arg fs =
      prune_parents (Path r cs) (ancs @ Path r cs # parents (Path r cs)) fs2"
    unfolding remove_cache_for_def j cf by (simp add: wd wm u1 u2 cd par)
  have ok: "\<forall>d \<in> set ancs. d \<noteq> Path r cs \<and> is_relative_to d (Path r cs) \<and> d \<notin> files fs2"
  proof
    fix d assume d: "d \<in> set ancs"
    then obtain k where "d = Path r (base @ take k ds)"
      unfolding ancs_def set_map by blast
    then have "d \<noteq> Path r cs" and "is_relative_to d (Path r cs)"
      by (simp_all add: base_def is_relative_to_def)
    moreover from d have "d \<in> set (parents cache_file)"
      unfolding par by simp
    with nf' have "d \<notin> files fs2"
      unfolding files2 by blast
    ultimately show "d \<noteq> Path r cs \<and> is_relative_to d (Path r cs) \<and> d \<notin> files fs2"
      by blast
  qed
  from prune_parents_walk [OF ok, of "parents (Path r cs)"] obtain removed kept where
    split: "ancs = removed @ kept"
    and res: "prune_parents (Path r cs) (ancs @ Path r cs # parents (Path r cs)) fs2 =
        Inr (fs2\<lparr>dirs := dirs fs2 - set removed\<rparr>)"
    and empty: "\<forall>d \<in> set removed. d \<in> dirs fs2 \<longrightarrow>
        \<not> has_entries (fs2\<lparr>dirs := dirs fs2 - set removed\<rparr>) d"
    and stop: "kept \<noteq> [] \<longrightarrow> hd kept \<in> dirs fs2 - set removed \<and>
        has_entries (fs2\<lparr>dirs := dirs fs2 - set removed\<rparr>) (hd kept)"
    by blast
  define fs' where "fs' = fs2\<lparr>dirs := dirs fs2 - set removed\<rparr>"
  have files': "files fs' = files fs - {data, meta}" and dirs': "dirs fs' = dirs fs - set removed"
    by (simp_all add: fs'_def files2 dirs2)
  have "Path r cs \<notin> set removed"
    using ok split by auto
  then have root_kept: "cache_dir self \<in> dirs fs' \<longleftrightarrow> cache_dir self \<in> dirs fs"
    unfolding cd dirs' by simp
  show ?thesis
    unfolding data_eq meta_eq ancs_eq
  proof (intro exI conjI)
    show "remove_cache_for v self path_arg fs = Inr fs'"
      unfolding run res fs'_def ..
    show "files fs' = files fs - {data, meta}" by (rule files')
    show "ancs = removed @ kept" by (rule split)
    show "dirs fs' = dirs fs - set removed" by (rule dirs')
    show "\<forall>d \<in> set removed. d \<in> dirs fs \<longrightarrow> \<not> has_entries fs' d"
      using empty unfolding fs'_def dirs2 .
    show "kept \<noteq> [] \<longrightarrow> hd kept \<in> dirs fs' \<and> has_entries fs' (hd kept)"
      using stop by (simp add: fs'_def dirs2)
    show "cache_dir self \<in> dirs fs' \<longleftrightarrow> cache_dir self \<in> dirs fs" by (rule root_kept)
  qed
qed


theorem remove_cache_for_evicts_witness:
  "parse_path ''pkg/mod.py'' = Path [] ([''pkg''] @ [''mod.py'']) \<and>
   with_suffix (Path [] [''mod.py'']) [] = Inr (Path [] [''mod'']) \<and>
   suffix (Path [] [''mod'']) = [] \<and>
   remove_cache_for (3, 12) root_cache ''pkg/mod.py'' fs_pkg =
     Inr \<lparr>files = {}, dirs = {Path ''/'' [], Path ''/'' [''c'']}\<rparr> \<and>
   (\<exists>fs'. remove_cache_for (3, 12) root_cache ''pkg/mod.py'' fs_pkg = Inr fs' \<and>
      files fs' = {} \<and> cache_dir root_cache \<in> dirs fs')"
proof -
  have cd: "cache_dir root_cache = Path ''/'' [''c'']"
    by (simp add: root_cache_def)
  have p: "parse_path ''pkg/mod.py'' = Path [] ([''pkg''] @ [''mod.py''])"
    by code_simp
  have plain: "''..'' \<notin> set ([''pkg''] @ [''mod.py''])"
    by simp
  have st: "with_suffix (Path [] [''mod.py'']) [] = Inr (Path [] [''mod''])"
    by code_simp
  have single: "suffix (Path [] [''mod'']) = []"
    by code_simp
  have ver: "version_dir (3, 12) = ''3.12''"
    by code_simp
  have nd1: "Path ''/'' ([''c''] @ version_dir (3, 12) # [''pkg''] @ [''mod'' @ ''.data.json''])
      \<notin> dirs fs_pkg"
    unfolding ver by (simp add: fs_pkg_def)
  have nd2: "Path ''/'' ([''c''] @ version_dir (3, 12) # [''pkg''] @ [''mod'' @ ''.meta.json''])
      \<notin> dirs fs_pkg"
    unfolding ver by (simp add: fs_pkg_def)
  have nf: "\<forall>q \<in> set (parents (Path ''/'' ([''c''] @ version_dir (3, 12) # [''pkg''] @ [''mod'']))).
      q \<notin> files fs_pkg"
    unfolding ver by code_simp
  from remove_cache_for_evicts [OF cd p plain st single nd1 nd2 nf]
  obtain fs' where run: "remove_cache_for (3, 12) root_cache ''pkg/mod.py'' fs_pkg = Inr fs'"
    and fl: "files fs' = files fs_pkg -
        {Path ''/'' ([''c''] @ version_dir (3, 12) # [''pkg''] @ [''mod'' @ ''.data.json'']),
         Path ''/'' ([''c''] @ version_dir (3, 12) # [''pkg''] @ [''mod'' @ ''.meta.json''])}"
    and rt: "cache_dir root_cache \<in> dirs fs' \<longleftrightarrow> cache_dir root_cache \<in> dirs fs_pkg"
    by blast
  from fl have "files fs' = {}"
    unfolding ver by (simp add: fs_pkg_def)
  moreover from rt have "cache_dir root_cache \<in> dirs fs'"
    by (simp add: root_cache_def fs_pkg_def)
  ultimately have ex: "\<exists>fs'. remove_cache_for (3, 12) root_cache ''pkg/mod.py'' fs_pkg = Inr fs' \<and>
      files fs' = {} \<and> cache_dir root_cache \<in> dirs fs'"
    using run by blast
  have ev: "remove_cache_for (3, 12) root_cache ''pkg/mod.py'' fs_pkg =
     Inr \<lparr>files = {}, dirs = {Path ''/'' [], Path ''/'' [''c'']}\<rparr>"
    by code_simp
  from p st single ev ex show ?thesis by blast
qed

end
